theory Spec2Isabelle
  imports Complex_Main "HOL-Library.Log_Nat"
begin

section \<open>Constants (constants.js)\<close>

text \<open>
  A direction is one of the four frozen objects of \<open>DIRECTIONS\<close>; each carries a unit
  delta \<open>dx\<close>, \<open>dy\<close> and a \<open>name\<close>. The source compares directions by their names and
  looks opposites up in the table \<open>OPPOSITE_DIRECTIONS\<close>, which is keyed by name.
\<close>

datatype direction = UP | DOWN | LEFT | RIGHT

fun dx :: "direction \<Rightarrow> int" where
  "dx UP = 0"
| "dx DOWN = 0"
| "dx LEFT = -1"
| "dx RIGHT = 1"

fun dy :: "direction \<Rightarrow> int" where
  "dy UP = -1"
| "dy DOWN = 1"
| "dy LEFT = 0"
| "dy RIGHT = 0"

fun name :: "direction \<Rightarrow> string" where
  "name UP = ''UP''"
| "name DOWN = ''DOWN''"
| "name LEFT = ''LEFT''"
| "name RIGHT = ''RIGHT''"

definition OPPOSITE_DIRECTIONS :: "string \<rightharpoonup> string" where
  "OPPOSITE_DIRECTIONS =
     map_of [(''UP'', ''DOWN''), (''DOWN'', ''UP''), (''LEFT'', ''RIGHT''), (''RIGHT'', ''LEFT'')]"

definition MAX_DIRECTION_QUEUE :: nat where
  "MAX_DIRECTION_QUEUE = 2"

definition GRID_SIZE :: int where
  "GRID_SIZE = 20"

definition BASE_TICK_MS :: int where
  "BASE_TICK_MS = 200"

definition SPEED_INCREMENT_MS :: int where
  "SPEED_INCREMENT_MS = 20"

definition MIN_TICK_MS :: int where
  "MIN_TICK_MS = 60"

definition POINTS_PER_FOOD :: int where
  "POINTS_PER_FOOD = 10"

definition POINTS_PER_LEVEL :: int where
  "POINTS_PER_LEVEL = 50"

definition MAX_LEVEL :: int where
  "MAX_LEVEL = 10"

section \<open>Utilities (utils.js)\<close>

text \<open>A grid coordinate \<open>{x, y}\<close> is a pair of integers: \<open>fst\<close> is \<open>x\<close>, \<open>snd\<close> is \<open>y\<close>.\<close>

type_synonym coord = "int \<times> int"

text \<open>The exceptions the modelled code can throw.\<close>

datatype error = TypeError | RangeError

definition coordsEqual :: "coord \<Rightarrow> coord \<Rightarrow> bool" where
  "coordsEqual a b = (fst a = fst b \<and> snd a = snd b)"

definition coordInList :: "coord \<Rightarrow> coord list \<Rightarrow> bool" where
  "coordInList c l = list_ex (\<lambda>cell. coordsEqual cell c) l"

text \<open>
  \<open>randomInt(min, max)\<close>. The first argument is the value \<open>Math.random()\<close> returns in the
  call, a number \<open>u\<close> with \<open>0 \<le> u < 1\<close>.
\<close>

definition randomInt :: "rat \<Rightarrow> int \<Rightarrow> int \<Rightarrow> error + int" where
  "randomInt u mn mx =
     (if mn > mx then Inl RangeError
      else Inr (\<lfloor>u * of_int (mx - mn + 1)\<rfloor> + mn))"

definition tickIntervalForLevel :: "int \<Rightarrow> int \<Rightarrow> int \<Rightarrow> int \<Rightarrow> int" where
  "tickIntervalForLevel lvl baseTick increment minTick =
     (let raw = baseTick - (lvl - 1) * increment in max raw minTick)"

section \<open>The snake (snake.js)\<close>

record snake =
  gridSize :: int
  body :: "coord list"
  direction :: direction
  directionQueue :: "direction list"
  pendingGrowth :: bool

definition new_Snake :: "int \<Rightarrow> snake" where
  "new_Snake gs =
     (let midY = gs div 2; midX = gs div 2
      in \<lparr> gridSize = gs,
           body = [(midX, midY), (midX - 1, midY), (midX - 2, midY)],
           direction = RIGHT,
           directionQueue = [],
           pendingGrowth = False \<rparr>)"

text \<open>
  \<open>enqueueDirection(newDir)\<close>; \<open>None\<close> is a \<open>null\<close> or \<open>undefined\<close> argument, which the
  first line of the method ignores.
\<close>

definition effectiveName :: "snake \<Rightarrow> string" where
  "effectiveName s =
     (if length (directionQueue s) > 0
      then name (directionQueue s ! (length (directionQueue s) - 1))
      else name (direction s))"

definition enqueueDirection :: "direction option \<Rightarrow> snake \<Rightarrow> snake" where
  "enqueueDirection newDir s =
     (case newDir of
        None \<Rightarrow> s
      | Some d \<Rightarrow>
          if Some (name d) = OPPOSITE_DIRECTIONS (effectiveName s) then s
          else if name d = effectiveName s then s
          else if length (directionQueue s) \<ge> MAX_DIRECTION_QUEUE then s
          else s\<lparr>directionQueue := directionQueue s @ [d]\<rparr>)"

text \<open>
  \<open>move()\<close> returns the new head together with the updated snake; \<open>applyQueued\<close> is
  its first step, which takes the next direction from the queue. Reading
  \<open>this._body[0].x\<close> on an empty body throws a \<open>TypeError\<close>.
\<close>

definition applyQueued :: "snake \<Rightarrow> snake" where
  "applyQueued s =
     (if length (directionQueue s) > 0
      then s\<lparr>direction := hd (directionQueue s), directionQueue := tl (directionQueue s)\<rparr>
      else s)"

definition move :: "snake \<Rightarrow> error + (snake \<times> coord)" where
  "move s =
     (let s1 = applyQueued s in
      case body s1 of
        [] \<Rightarrow> Inl TypeError
      | h # rest \<Rightarrow>
          let newHead = (fst h + dx (direction s1), snd h + dy (direction s1));
              b = newHead # body s1
          in if pendingGrowth s1
             then Inr (s1\<lparr>body := b, pendingGrowth := False\<rparr>, newHead)
             else Inr (s1\<lparr>body := butlast b\<rparr>, newHead))"

definition grow :: "snake \<Rightarrow> snake" where
  "grow s = s\<lparr>pendingGrowth := True\<rparr>"

text \<open>
  The snake after a \<open>move()\<close>, field by field, for a snake with a body; \<open>move_moved\<close>
  below shows that this is what \<open>move\<close> returns.
\<close>

definition moved :: "snake \<Rightarrow> snake" where
  "moved s =
     (let d = (case directionQueue s of [] \<Rightarrow> direction s | d # q \<Rightarrow> d);
          h = (fst (hd (body s)) + dx d, snd (hd (body s)) + dy d)
      in \<lparr> gridSize = gridSize s,
           body = h # (if pendingGrowth s then body s else butlast (body s)),
           direction = d,
           directionQueue = (case directionQueue s of [] \<Rightarrow> [] | d # q \<Rightarrow> q),
           pendingGrowth = False \<rparr>)"

text \<open>
  \<open>isOutOfBounds\<close> destructures \<open>this.head\<close>, which throws on an empty body;
  \<open>isSelfColliding\<close> on an empty body tests no cell and returns false.
\<close>

definition isOutOfBounds :: "snake \<Rightarrow> error + bool" where
  "isOutOfBounds s =
     (case body s of
        [] \<Rightarrow> Inl TypeError
      | h # rest \<Rightarrow>
          Inr (fst h < 0 \<or> fst h \<ge> gridSize s \<or> snd h < 0 \<or> snd h \<ge> gridSize s))"

definition isSelfColliding :: "snake \<Rightarrow> bool" where
  "isSelfColliding s =
     (case body s of
        [] \<Rightarrow> False
      | h # rest \<Rightarrow> coordInList h rest)"

definition isDead :: "snake \<Rightarrow> error + bool" where
  "isDead s =
     (case isOutOfBounds s of
        Inl e \<Rightarrow> Inl e
      | Inr oob \<Rightarrow> Inr (oob \<or> isSelfColliding s))"

definition occupies :: "snake \<Rightarrow> coord \<Rightarrow> bool" where
  "occupies s c = coordInList c (body s)"

text \<open>A call of one of the three mutating methods of a snake, and a sequence of them.\<close>

datatype snake_call = EnqueueDirection "direction option" | Grow | Move

fun snake_step :: "snake \<Rightarrow> snake_call \<Rightarrow> error + snake" where
  "snake_step s (EnqueueDirection d) = Inr (enqueueDirection d s)"
| "snake_step s Grow = Inr (grow s)"
| "snake_step s Move = (case move s of Inl e \<Rightarrow> Inl e | Inr (s', h) \<Rightarrow> Inr s')"

fun snake_run :: "snake \<Rightarrow> snake_call list \<Rightarrow> error + snake" where
  "snake_run s [] = Inr s"
| "snake_run s (c # cs) =
     (case snake_step s c of Inl e \<Rightarrow> Inl e | Inr s' \<Rightarrow> snake_run s' cs)"

text \<open>
  The words of the specification: each direction has one opposite, in the two pairs
  \<open>{UP, DOWN}\<close> and \<open>{LEFT, RIGHT}\<close>; the effective direction is the last queued direction
  when the queue is non-empty, else the active direction.
\<close>

fun opposite :: "direction \<Rightarrow> direction" where
  "opposite UP = DOWN"
| "opposite DOWN = UP"
| "opposite LEFT = RIGHT"
| "opposite RIGHT = LEFT"

definition effectiveDirection :: "snake \<Rightarrow> direction" where
  "effectiveDirection s =
     (if directionQueue s = [] then direction s else last (directionQueue s))"

definition manhattan :: "coord \<Rightarrow> coord \<Rightarrow> int" where
  "manhattan a b = \<bar>fst a - fst b\<bar> + \<bar>snd a - snd b\<bar>"

fun contiguous :: "coord list \<Rightarrow> bool" where
  "contiguous [] = True"
| "contiguous [a] = True"
| "contiguous (a # b # rest) = (manhattan a b = 1 \<and> contiguous (b # rest))"

section \<open>The game state (state.js)\<close>

datatype screens = MENU | PLAYING | PAUSED | GAME_OVER | WIN

text \<open>
  Score, level and high score are integers: the score grows by 10 per food item and stays
  far below \<open>2^53\<close>, where the arithmetic of JavaScript numbers on integers is exact and
  \<open>Math.floor(a / b)\<close> is integer division.
\<close>

record gameState =
  screen :: screens
  score :: int
  highScore :: int
  level :: int
  isNewRecord :: bool

definition new_GameState :: "int \<Rightarrow> gameState" where
  "new_GameState initialHighScore =
     \<lparr> screen = MENU, score = 0, highScore = initialHighScore, level = 1,
       isNewRecord = False \<rparr>"

definition startGame :: "gameState \<Rightarrow> gameState" where
  "startGame st = st\<lparr>score := 0, level := 1, isNewRecord := False, screen := PLAYING\<rparr>"

definition pause :: "gameState \<Rightarrow> gameState" where
  "pause st = (if screen st = PLAYING then st\<lparr>screen := PAUSED\<rparr> else st)"

definition resume :: "gameState \<Rightarrow> gameState" where
  "resume st = (if screen st = PAUSED then st\<lparr>screen := PLAYING\<rparr> else st)"

definition updateHighScore :: "gameState \<Rightarrow> gameState" where
  "updateHighScore st =
     (if score st > highScore st
      then st\<lparr>highScore := score st, isNewRecord := True\<rparr>
      else st)"

definition endGame :: "gameState \<Rightarrow> gameState" where
  "endGame st = (updateHighScore st)\<lparr>screen := GAME_OVER\<rparr>"

definition win :: "gameState \<Rightarrow> gameState" where
  "win st = (updateHighScore st)\<lparr>screen := WIN\<rparr>"

definition returnToMenu :: "gameState \<Rightarrow> gameState" where
  "returnToMenu st = st\<lparr>screen := MENU\<rparr>"

text \<open>\<open>addScore()\<close> returns the pair \<open>{leveledUp, newLevel}\<close> beside the updated state.\<close>

definition addScore :: "gameState \<Rightarrow> gameState \<times> (bool \<times> int)" where
  "addScore st =
     (let oldLevel = level st;
          st1 = st\<lparr>score := score st + POINTS_PER_FOOD\<rparr>;
          st2 = st1\<lparr>level := min (score st1 div POINTS_PER_LEVEL + 1) MAX_LEVEL\<rparr>;
          leveledUp = (level st2 > oldLevel)
      in (st2, (leveledUp, level st2)))"

text \<open>A call of one of the methods of the game state, and a sequence of calls.\<close>

datatype state_call = StartGame | Pause | Resume | EndGame | Win | ReturnToMenu | AddScore

fun state_step :: "gameState \<Rightarrow> state_call \<Rightarrow> gameState" where
  "state_step st StartGame = startGame st"
| "state_step st Pause = pause st"
| "state_step st Resume = resume st"
| "state_step st EndGame = endGame st"
| "state_step st Win = win st"
| "state_step st ReturnToMenu = returnToMenu st"
| "state_step st AddScore = fst (addScore st)"

fun state_run :: "gameState \<Rightarrow> state_call list \<Rightarrow> gameState" where
  "state_run st [] = st"
| "state_run st (c # cs) = state_run (state_step st c) cs"

text \<open>The state after \<open>n\<close> calls of \<open>addScore()\<close>.\<close>

fun addScore_times :: "nat \<Rightarrow> gameState \<Rightarrow> gameState" where
  "addScore_times 0 st = st"
| "addScore_times (Suc n) st = fst (addScore (addScore_times n st))"

text \<open>While a game is being played or is paused, no record has been flagged yet.\<close>

definition record_clear :: "gameState \<Rightarrow> bool" where
  "record_clear st = (if screen st = PLAYING \<or> screen st = PAUSED then \<not> isNewRecord st else True)"

section \<open>The food (food.js)\<close>

text \<open>
  The position of the food is \<open>null\<close> or a cell. Reading an array out of range gives
  \<open>undefined\<close> in JavaScript, so the value \<open>freeCells[i]\<close> of \<open>spawn\<close> is modelled with a
  third case for an index outside the array.
\<close>

datatype pos = Null | Undefined | Cell coord

record food =
  f_gridSize :: int
  position :: pos

definition new_Food :: "int \<Rightarrow> food" where
  "new_Food gs = \<lparr> f_gridSize = gs, position = Null \<rparr>"

definition isActive :: "food \<Rightarrow> bool" where
  "isActive f = (position f \<noteq> Null)"

text \<open>
  The two nested \<open>for\<close> loops of \<open>spawn\<close>: \<open>spawn_x\<close> is the inner loop over \<open>x\<close> in
  row \<open>y\<close>, \<open>spawn_y\<close> the outer loop over \<open>y\<close>; the last argument is the array
  \<open>freeCells\<close> built so far.
\<close>

function spawn_x :: "int \<Rightarrow> coord list \<Rightarrow> int \<Rightarrow> int \<Rightarrow> coord list \<Rightarrow> coord list" where
  "spawn_x n occupiedCells y x freeCells =
     (if x < n
      then (let cell = (x, y);
                isOccupied = list_ex (\<lambda>c. coordsEqual c cell) occupiedCells
            in spawn_x n occupiedCells y (x + 1)
                 (if \<not> isOccupied then freeCells @ [cell] else freeCells))
      else freeCells)"
  by pat_completeness auto
termination
  by (relation "measure (\<lambda>(n, occupiedCells, y, x, freeCells). nat (n - x))") auto

function spawn_y :: "int \<Rightarrow> coord list \<Rightarrow> int \<Rightarrow> coord list \<Rightarrow> coord list" where
  "spawn_y n occupiedCells y freeCells =
     (if y < n
      then spawn_y n occupiedCells (y + 1) (spawn_x n occupiedCells y 0 freeCells)
      else freeCells)"
  by pat_completeness auto
termination
  by (relation "measure (\<lambda>(n, occupiedCells, y, freeCells). nat (n - y))") auto

declare spawn_x.simps [simp del] spawn_y.simps [simp del]

text \<open>\<open>spawn(occupiedCells)\<close>; the first argument is the value of \<open>Math.random()\<close>.\<close>

definition spawn :: "rat \<Rightarrow> coord list \<Rightarrow> food \<Rightarrow> error + food" where
  "spawn u occupiedCells f =
     (let freeCells = spawn_y (f_gridSize f) occupiedCells 0 [] in
      if length freeCells = 0 then Inr (f\<lparr>position := Null\<rparr>)
      else
        case randomInt u 0 (int (length freeCells) - 1) of
          Inl e \<Rightarrow> Inl e
        | Inr i \<Rightarrow>
            Inr (f\<lparr>position :=
                   (if 0 \<le> i \<and> i < int (length freeCells) then Cell (freeCells ! nat i)
                    else Undefined)\<rparr>))"

definition isEatenBy :: "food \<Rightarrow> coord \<Rightarrow> bool" where
  "isEatenBy f c =
     (case position f of
        Cell p \<Rightarrow> coordsEqual p c
      | _ \<Rightarrow> False)"

text \<open>A cell inside a grid of side \<open>n\<close>.\<close>

definition in_grid :: "int \<Rightarrow> coord \<Rightarrow> bool" where
  "in_grid n c = (0 \<le> fst c \<and> fst c < n \<and> 0 \<le> snd c \<and> snd c < n)"

section \<open>Numbers and strings of JavaScript\<close>

text \<open>
  The storage module converts between numbers and strings with the built-ins
  \<open>parseInt\<close>, \<open>String\<close> and \<open>Number.isFinite\<close>. A number of the model is \<open>NaN\<close>, one of
  the two infinities, or a finite number with an integer value (a high score is a count of
  points); the two zeros are not distinguished.
\<close>

datatype number = NaN | Infinity | NegInfinity | Finite int

fun Number_isFinite :: "number \<Rightarrow> bool" where
  "Number_isFinite (Finite n) = True"
| "Number_isFinite x = False"

text \<open>The comparisons \<open>a < b\<close> and \<open>a >= b\<close> of numbers; both are false when one side is \<open>NaN\<close>.\<close>

fun num_less :: "number \<Rightarrow> number \<Rightarrow> bool" where
  "num_less NaN b = False"
| "num_less a NaN = False"
| "num_less (Finite a) (Finite b) = (a < b)"
| "num_less (Finite a) Infinity = True"
| "num_less (Finite a) NegInfinity = False"
| "num_less Infinity b = False"
| "num_less NegInfinity NegInfinity = False"
| "num_less NegInfinity b = True"

definition num_greater_eq :: "number \<Rightarrow> number \<Rightarrow> bool" where
  "num_greater_eq a b = (a \<noteq> NaN \<and> b \<noteq> NaN \<and> \<not> num_less a b)"

text \<open>
  The number an integer denotes: the nearest double, ties to the even significand, and an
  infinity from \<open>2^1024 - 2^970\<close> on. Integers of magnitude below \<open>2^53\<close> are exact.
\<close>

definition toDouble :: "int \<Rightarrow> number" where
  "toDouble n =
     (let a = \<bar>n\<bar> in
      if a < 2 ^ 53 then Finite n
      else
        let e = nat (bitlen a - 53);
            q = a div 2 ^ e;
            r = a mod 2 ^ e;
            half = 2 ^ (e - 1);
            q' = (if r > half \<or> (r = half \<and> odd q) then q + 1 else q);
            m = q' * 2 ^ e
        in if m \<ge> 2 ^ 1024 then (if n < 0 then NegInfinity else Infinity)
           else Finite (if n < 0 then - m else m))"

text \<open>
  \<open>parseInt(string, 10)\<close>: leading white space is skipped, then an optional sign is read,
  then the longest run of decimal digits; no digit gives \<open>NaN\<close>, and the digits give the
  number their integer denotes (ECMAScript lets an implementation replace the digits after
  the 20th by zeros; the model reads them all). A string is a list of 8-bit characters
  here, so the white space is that below \<open>0x100\<close>.
\<close>

definition isWhiteSpace :: "char \<Rightarrow> bool" where
  "isWhiteSpace c =
     (c \<in> set [CHR 0x09, CHR 0x0A, CHR 0x0B, CHR 0x0C, CHR 0x0D, CHR 0x20, CHR 0xA0])"

definition isDigit :: "char \<Rightarrow> bool" where
  "isDigit c = (c \<in> set ''0123456789'')"

definition digitValue :: "char \<Rightarrow> int" where
  "digitValue c = int (of_char c) - 48"

definition parseInt10 :: "string \<Rightarrow> number" where
  "parseInt10 inputString =
     (let S = dropWhile isWhiteSpace inputString;
          sign = (case S of c # rest \<Rightarrow> if c = CHR ''-'' then - 1 else 1 | [] \<Rightarrow> (1::int));
          S1 = (case S of c # rest \<Rightarrow> if c = CHR ''+'' \<or> c = CHR ''-'' then rest else S | [] \<Rightarrow> S);
          Z = takeWhile isDigit S1
      in if Z = [] then NaN
         else toDouble (sign * foldl (\<lambda>a c. 10 * a + digitValue c) 0 Z))"

text \<open>
  \<open>String(number)\<close> prints the decimal number with the fewest significant digits that
  reads back as the same double (\<open>shortest\<close>; of two such numbers the nearer one), in plain
  digits up to 21 digits and in exponent notation beyond.
\<close>

definition digitChar :: "int \<Rightarrow> char" where
  "digitChar d = char_of (48 + d)"

function decimal :: "int \<Rightarrow> string" where
  "decimal n = (if n < 10 then [digitChar n] else decimal (n div 10) @ [digitChar (n mod 10)])"
  by pat_completeness auto
termination
  by (relation "measure nat") auto

declare decimal.simps [simp del]

definition roundTrip :: "int \<Rightarrow> nat \<Rightarrow> nat \<Rightarrow> int option" where
  "roundTrip n nd k =
     (let p = 10 ^ (nd - k);
          lo = (n div p) * p;
          hi = lo + p;
          okLo = (toDouble lo = Finite n);
          okHi = (toDouble hi = Finite n)
      in if okLo \<and> okHi
         then (if n - lo < hi - n then Some lo
               else if hi - n < n - lo then Some hi
               else if even (n div p) then Some lo else Some hi)
         else if okLo then Some lo
         else if okHi then Some hi
         else None)"

definition shortest :: "int \<Rightarrow> int" where
  "shortest n =
     (let nd = length (decimal n)
      in case List.map_filter (roundTrip n nd) [1..<Suc nd] of
           v # rest \<Rightarrow> v
         | [] \<Rightarrow> n)"

definition formatDigits :: "int \<Rightarrow> string" where
  "formatDigits v =
     (let ds = decimal v;
          n = length ds;
          s = rev (dropWhile (\<lambda>c. c = CHR ''0'') (rev ds));
          k = length s
      in if n \<le> 21 then ds
         else if k = 1 then s @ ''e+'' @ decimal (int n - 1)
         else hd s # ''.'' @ tl s @ ''e+'' @ decimal (int n - 1))"

definition String_number :: "number \<Rightarrow> string" where
  "String_number v =
     (case v of
        NaN \<Rightarrow> ''NaN''
      | Infinity \<Rightarrow> ''Infinity''
      | NegInfinity \<Rightarrow> ''-Infinity''
      | Finite n \<Rightarrow>
          if n = 0 then ''0''
          else if n < 0 then ''-'' @ formatDigits (shortest (- n))
          else formatDigits (shortest n))"

section \<open>Persistence (storage.js)\<close>

text \<open>
  \<open>localStorage\<close> is a dictionary from keys to strings whose \<open>getItem\<close> and
  \<open>setItem\<close> may throw (private mode, quota); \<open>safeGet\<close> turns a throw into \<open>null\<close>
  (\<open>None\<close>, as for a missing key) and \<open>safeSet\<close> ignores it.
\<close>

record localStorage =
  getItemThrows :: bool
  setItemThrows :: bool
  items :: "string \<rightharpoonup> string"

definition HIGH_SCORE :: string where
  "HIGH_SCORE = ''snake_high_score''"

definition safeGet :: "localStorage \<Rightarrow> string \<Rightarrow> string option" where
  "safeGet ls key = (if getItemThrows ls then None else items ls key)"

definition safeSet :: "localStorage \<Rightarrow> string \<Rightarrow> string \<Rightarrow> localStorage" where
  "safeSet ls key v = (if setItemThrows ls then ls else ls\<lparr>items := (items ls)(key \<mapsto> v)\<rparr>)"

definition loadHighScore :: "localStorage \<Rightarrow> number" where
  "loadHighScore ls =
     (case safeGet ls HIGH_SCORE of
        None \<Rightarrow> Finite 0
      | Some raw \<Rightarrow>
          let parsed = parseInt10 raw
          in if Number_isFinite parsed \<and> num_greater_eq parsed (Finite 0) then parsed
             else Finite 0)"

definition saveHighScore :: "number \<Rightarrow> localStorage \<Rightarrow> localStorage" where
  "saveHighScore sc ls =
     (if \<not> Number_isFinite sc \<or> num_less sc (Finite 0) then ls
      else
        let current = loadHighScore ls
        in if num_less current sc then safeSet ls HIGH_SCORE (String_number sc) else ls)"

section \<open>The orchestrator (game.js)\<close>

text \<open>
  The fields of \<open>Game\<close> that the input handlers and the tick read or write. \<open>played\<close>
  lists the cues passed to \<open>audio.play\<close>, oldest first. The methods that call
  \<open>Food.spawn\<close> take the value of \<open>Math.random()\<close> as their first argument.
\<close>

record game =
  state :: gameState
  snake :: "snake option"
  food :: "food option"
  tickAccum :: rat
  shakeTimeLeft :: rat
  shakeOffset :: "rat \<times> rat"
  pulseT :: rat
  played :: "string list"
  storage :: localStorage

definition SHAKE_DURATION_MS :: rat where
  "SHAKE_DURATION_MS = 300"

definition startNewGame :: "rat \<Rightarrow> game \<Rightarrow> error + game" where
  "startNewGame u g =
     (let sn = new_Snake GRID_SIZE;
          fd = new_Food GRID_SIZE
      in case spawn u (body sn) fd of
           Inl e \<Rightarrow> Inl e
         | Inr fd' \<Rightarrow>
             Inr (g\<lparr>snake := Some sn, food := Some fd', tickAccum := 0, shakeTimeLeft := 0,
                    shakeOffset := (0, 0), pulseT := 0, state := startGame (state g)\<rparr>))"

definition onDirection :: "direction option \<Rightarrow> game \<Rightarrow> game" where
  "onDirection dir g =
     (case snake g of
        Some sn \<Rightarrow>
          if screen (state g) = PLAYING then g\<lparr>snake := Some (enqueueDirection dir sn)\<rparr> else g
      | None \<Rightarrow> g)"

definition onPause :: "game \<Rightarrow> game" where
  "onPause g =
     (if screen (state g) = PLAYING then g\<lparr>state := pause (state g)\<rparr>
      else if screen (state g) = PAUSED then g\<lparr>state := resume (state g)\<rparr>
      else if screen (state g) = GAME_OVER \<or> screen (state g) = WIN
        then g\<lparr>state := returnToMenu (state g)\<rparr>
      else g)"

definition onConfirm :: "rat \<Rightarrow> game \<Rightarrow> error + game" where
  "onConfirm u g =
     (case screen (state g) of
        MENU \<Rightarrow> startNewGame u g
      | GAME_OVER \<Rightarrow> startNewGame u g
      | WIN \<Rightarrow> startNewGame u g
      | PAUSED \<Rightarrow> Inr (g\<lparr>state := resume (state g)\<rparr>)
      | PLAYING \<Rightarrow> Inr g)"

text \<open>
  \<open>_tick()\<close>. \<open>tick_dead\<close> is the branch taken when the snake is dead after the move,
  \<open>tick_eat\<close> the branch taken when the new head is on the food.
\<close>

definition tick_dead :: "game \<Rightarrow> game" where
  "tick_dead g =
     (let g1 = g\<lparr>played := played g @ [''die''], shakeTimeLeft := SHAKE_DURATION_MS\<rparr>;
          g2 = g1\<lparr>state := endGame (state g1)\<rparr>
      in g2\<lparr>storage := saveHighScore (Finite (highScore (state g2))) (storage g2)\<rparr>)"

definition tick_eat :: "rat \<Rightarrow> snake \<Rightarrow> food \<Rightarrow> game \<Rightarrow> error + game" where
  "tick_eat u sn fd g =
     (let sn1 = grow sn;
          (st, leveledUp, newLevel) = addScore (state g);
          g1 = g\<lparr>snake := Some sn1, state := st,
                 played := played g @ [if leveledUp then ''levelup'' else ''eat'']\<rparr>
      in case spawn u (body sn1) fd of
           Inl e \<Rightarrow> Inl e
         | Inr fd' \<Rightarrow>
             let g2 = g1\<lparr>food := Some fd'\<rparr>
             in if \<not> isActive fd'
                then let g3 = g2\<lparr>state := win (state g2)\<rparr>
                     in Inr (g3\<lparr>storage :=
                               saveHighScore (Finite (highScore (state g3))) (storage g3)\<rparr>)
                else Inr g2)"

definition tick :: "rat \<Rightarrow> game \<Rightarrow> error + game" where
  "tick u g =
     (case snake g of
        None \<Rightarrow> Inr g
      | Some sn \<Rightarrow>
     (case food g of
        None \<Rightarrow> Inr g
      | Some fd \<Rightarrow>
     (case move sn of
        Inl e \<Rightarrow> Inl e
      | Inr (sn1, newHead) \<Rightarrow>
          let g1 = g\<lparr>snake := Some sn1\<rparr>
          in case isDead sn1 of
               Inl e \<Rightarrow> Inl e
             | Inr dead \<Rightarrow>
                 if dead then Inr (tick_dead g1)
                 else
                   case body sn1 of
                     [] \<Rightarrow> Inl TypeError
                   | h # rest \<Rightarrow>
                       if isEatenBy fd h then tick_eat u sn1 fd g1 else Inr g1)))"

text \<open>A game in progress with the given snake and food, nothing stored and nothing played.\<close>

definition example_game :: "snake \<Rightarrow> food \<Rightarrow> game" where
  "example_game sn fd =
     \<lparr> state = startGame (new_GameState 0), snake = Some sn, food = Some fd,
       tickAccum = 0, shakeTimeLeft = 0, shakeOffset = (0, 0), pulseT = 0, played = [],
       storage = \<lparr> getItemThrows = False, setItemThrows = False, items = Map.empty \<rparr> \<rparr>"

section \<open>Direction input\<close>

lemma name_inject: "name d = name e \<longleftrightarrow> d = e"
  by (cases d; cases e) simp_all

lemma OPPOSITE_DIRECTIONS_name: "OPPOSITE_DIRECTIONS (name e) = Some (name (opposite e))"
  by (cases e) (simp_all add: OPPOSITE_DIRECTIONS_def)

lemma effectiveName_effectiveDirection: "effectiveName s = name (effectiveDirection s)"
  by (simp add: effectiveName_def effectiveDirection_def last_conv_nth)

lemma enqueueDirection_cases:
  "enqueueDirection (Some d) s =
     (if d = opposite (effectiveDirection s) \<or> d = effectiveDirection s
         \<or> length (directionQueue s) \<ge> MAX_DIRECTION_QUEUE
      then s else s\<lparr>directionQueue := directionQueue s @ [d]\<rparr>)"
  by (simp add: enqueueDirection_def effectiveName_effectiveDirection
        OPPOSITE_DIRECTIONS_name name_inject)

text \<open>
  C1. \<open>enqueueDirection(d)\<close> leaves the snake as it is (pending queue, active direction,
  body and every other field) and raises no error when \<open>d\<close> is the opposite of the
  effective direction, when \<open>d\<close> is the effective direction, or when the queue holds 2
  entries. The first two cases assume nothing about how full the queue is.
\<close>

theorem enqueueDirection_rejects:
  assumes "d = opposite (effectiveDirection s) \<or> d = effectiveDirection s
           \<or> length (directionQueue s) = 2"
  shows "enqueueDirection (Some d) s = s"
  using assms by (auto simp: enqueueDirection_cases MAX_DIRECTION_QUEUE_def)

theorem enqueueDirection_rejects_witness:
  "enqueueDirection (Some LEFT) (new_Snake 10) = new_Snake 10
   \<and> enqueueDirection (Some LEFT)
        ((new_Snake 10)\<lparr>directionQueue := [UP, RIGHT]\<rparr>)
      = (new_Snake 10)\<lparr>directionQueue := [UP, RIGHT]\<rparr>
   \<and> enqueueDirection (Some DOWN)
        ((new_Snake 10)\<lparr>directionQueue := [UP]\<rparr>)
      = (new_Snake 10)\<lparr>directionQueue := [UP]\<rparr>"
  using enqueueDirection_rejects [of LEFT "new_Snake 10"]
    enqueueDirection_rejects [of LEFT "(new_Snake 10)\<lparr>directionQueue := [UP, RIGHT]\<rparr>"]
    enqueueDirection_rejects [of DOWN "(new_Snake 10)\<lparr>directionQueue := [UP]\<rparr>"]
  by (simp add: effectiveDirection_def new_Snake_def)

section \<open>Movement and growth\<close>

lemma applyQueued_simps:
  "direction (applyQueued s) = (case directionQueue s of [] \<Rightarrow> direction s | d # q \<Rightarrow> d)"
  "directionQueue (applyQueued s) = (case directionQueue s of [] \<Rightarrow> [] | d # q \<Rightarrow> q)"
  "body (applyQueued s) = body s"
  "pendingGrowth (applyQueued s) = pendingGrowth s"
  "gridSize (applyQueued s) = gridSize s"
  by (simp_all add: applyQueued_def split: list.split)

lemma move_moved:
  assumes "body s \<noteq> []"
  shows "move s = Inr (moved s, hd (body (moved s)))"
proof -
  obtain h rest where b: "body s = h # rest"
    using assms by (cases "body s") auto
  show ?thesis
    by (rule trans [OF move_def])
      (simp add: Let_def applyQueued_simps b moved_def)
qed

lemma move_empty: "body s = [] \<Longrightarrow> move s = Inl TypeError"
  by (simp add: move_def applyQueued_simps)

lemma enqueueDirection_fields:
  "body (enqueueDirection nd s) = body s"
  "pendingGrowth (enqueueDirection nd s) = pendingGrowth s"
  "direction (enqueueDirection nd s) = direction s"
  "gridSize (enqueueDirection nd s) = gridSize s"
  by (cases nd; simp add: enqueueDirection_def)+

lemma snake_run_append:
  "snake_run s (cs @ ds) =
     (case snake_run s cs of Inl e \<Rightarrow> Inl e | Inr s' \<Rightarrow> snake_run s' ds)"
  by (induction cs arbitrary: s) (auto split: sum.splits)

lemma snake_run_no_move:
  assumes "Move \<notin> set cs"
  shows "\<exists>s1. snake_run s cs = Inr s1 \<and> body s1 = body s
           \<and> pendingGrowth s1 = (pendingGrowth s \<or> Grow \<in> set cs)"
  using assms
proof (induction cs arbitrary: s)
  case Nil
  then show ?case by simp
next
  case (Cons c cs)
  show ?case
  proof (cases c)
    case (EnqueueDirection nd)
    from Cons.IH [of "enqueueDirection nd s"] Cons.prems EnqueueDirection
    show ?thesis by (auto simp: enqueueDirection_fields)
  next
    case Grow
    from Cons.IH [of "grow s"] Cons.prems Grow
    show ?thesis by (auto simp: grow_def)
  next
    case Move
    with Cons.prems show ?thesis by simp
  qed
qed

lemma moved_fields:
  "direction (moved s) = (case directionQueue s of [] \<Rightarrow> direction s | d # q \<Rightarrow> d)"
  "directionQueue (moved s) = (case directionQueue s of [] \<Rightarrow> [] | d # q \<Rightarrow> q)"
  "body (moved s) =
     (fst (hd (body s)) + dx (direction (moved s)), snd (hd (body s)) + dy (direction (moved s)))
       # (if pendingGrowth s then body s else butlast (body s))"
  "pendingGrowth (moved s) = False"
  "gridSize (moved s) = gridSize s"
  by (simp_all add: moved_def Let_def)

lemma length_body_moved:
  "body s \<noteq> [] \<Longrightarrow>
     length (body (moved s)) = (if pendingGrowth s then length (body s) + 1 else length (body s))"
  by (cases "body s") (simp_all add: moved_fields)

text \<open>
  C2. On a snake with a body (every snake has one: the constructor makes three segments
  and no method shortens the body), \<open>move()\<close> returns normally; it makes the front of the
  pending queue, if any, the active direction and removes it from the queue; the new head
  is the old head plus the delta of the active direction, it is the first element of the new
  body and the value returned; the tail is kept exactly when growth was pending, and the
  pending-growth flag is cleared, so that a move right after it keeps the length. From a
  state with no growth pending (as after a move), any calls of \<open>enqueueDirection\<close> and
  \<open>grow\<close> followed by one \<open>move()\<close> add exactly one segment when \<open>grow\<close> was
  among them, however often, and none otherwise.
\<close>

theorem move_spec:
  assumes "body s \<noteq> []"
  shows "\<exists>s' h. move s = Inr (s', h)
     \<and> direction s' = (case directionQueue s of [] \<Rightarrow> direction s | d # q \<Rightarrow> d)
     \<and> directionQueue s' = (case directionQueue s of [] \<Rightarrow> [] | d # q \<Rightarrow> q)
     \<and> h = (fst (hd (body s)) + dx (direction s'), snd (hd (body s)) + dy (direction s'))
     \<and> body s' = h # (if pendingGrowth s then body s else butlast (body s))
     \<and> length (body s') = (if pendingGrowth s then length (body s) + 1 else length (body s))
     \<and> \<not> pendingGrowth s'
     \<and> gridSize s' = gridSize s
     \<and> (\<exists>s'' h'. move s' = Inr (s'', h') \<and> length (body s'') = length (body s'))
     \<and> (\<forall>cs. \<not> pendingGrowth s \<and> Move \<notin> set cs \<longrightarrow>
          (\<exists>t. snake_run s (cs @ [Move]) = Inr t
             \<and> length (body t) = (if Grow \<in> set cs then length (body s) + 1 else length (body s))
             \<and> \<not> pendingGrowth t))"
proof -
  have m: "move s = Inr (moved s, hd (body (moved s)))"
    using assms by (rule move_moved)
  have nonempty: "body (moved s) \<noteq> []"
    by (simp add: moved_fields)
  have again: "move (moved s) = Inr (moved (moved s), hd (body (moved (moved s))))"
    using nonempty by (rule move_moved)
  have len2: "length (body (moved (moved s))) = length (body (moved s))"
    using length_body_moved [OF nonempty] by (simp only: moved_fields(4) if_False)
  have seq: "\<exists>t. snake_run s (cs @ [Move]) = Inr t
       \<and> length (body t) = (if Grow \<in> set cs then length (body s) + 1 else length (body s))
       \<and> \<not> pendingGrowth t"
    if ng: "\<not> pendingGrowth s" and nm: "Move \<notin> set cs" for cs
  proof -
    from snake_run_no_move [OF nm, of s] ng obtain s1 where
      r: "snake_run s cs = Inr s1" and b: "body s1 = body s"
      and g: "pendingGrowth s1 = (Grow \<in> set cs)"
      by auto
    have ne: "body s1 \<noteq> []" using assms b by simp
    have "snake_run s (cs @ [Move]) = Inr (moved s1)"
      by (simp add: snake_run_append r move_moved [OF ne])
    moreover have "length (body (moved s1)) =
        (if Grow \<in> set cs then length (body s) + 1 else length (body s))"
      using length_body_moved [OF ne] g b by simp
    ultimately show ?thesis
      by (simp add: moved_fields)
  qed
  show ?thesis
    apply (rule exI [of _ "moved s"])
    apply (rule exI [of _ "hd (body (moved s))"])
    apply (intro conjI)
             apply (rule m)
            apply (simp add: moved_fields)
           apply (simp add: moved_fields)
          apply (simp add: moved_fields)
         apply (simp add: moved_fields)
        apply (rule length_body_moved [OF assms])
       apply (simp add: moved_fields)
      apply (simp add: moved_fields)
     apply (rule exI [of _ "moved (moved s)"])
     apply (rule exI [of _ "hd (body (moved (moved s)))"])
     apply (simp add: again len2)
    using seq apply blast
    done
qed

theorem move_spec_witness:
  "body (new_Snake 10) \<noteq> []
   \<and> (\<exists>s'. move (new_Snake 10) = Inr (s', (6, 5)) \<and> length (body s') = 3)
   \<and> (\<exists>t. snake_run (new_Snake 10) [Grow, EnqueueDirection (Some UP), Grow, Move] = Inr t
          \<and> length (body t) = 4 \<and> \<not> pendingGrowth t)"
proof -
  have ne: "body (new_Snake 10) \<noteq> []"
    by (simp add: new_Snake_def)
  have ng: "\<not> pendingGrowth (new_Snake 10)"
    by (simp add: new_Snake_def)
  from move_spec [OF ne] obtain s' h where
    m: "move (new_Snake 10) = Inr (s', h)"
    and h: "h = (fst (hd (body (new_Snake 10))) + dx (direction s'),
                 snd (hd (body (new_Snake 10))) + dy (direction s'))"
    and d: "direction s' =
        (case directionQueue (new_Snake 10) of [] \<Rightarrow> direction (new_Snake 10) | d # q \<Rightarrow> d)"
    and l: "length (body s') =
        (if pendingGrowth (new_Snake 10) then length (body (new_Snake 10)) + 1
         else length (body (new_Snake 10)))"
    and sq: "\<forall>cs. \<not> pendingGrowth (new_Snake 10) \<and> Move \<notin> set cs \<longrightarrow>
          (\<exists>t. snake_run (new_Snake 10) (cs @ [Move]) = Inr t
             \<and> length (body t) =
                 (if Grow \<in> set cs then length (body (new_Snake 10)) + 1
                  else length (body (new_Snake 10)))
             \<and> \<not> pendingGrowth t)"
    by blast
  have h': "h = (6, 5)"
    using h d by (simp add: new_Snake_def)
  have l': "length (body s') = 3"
    using l by (simp add: new_Snake_def)
  from sq [rule_format, of "[Grow, EnqueueDirection (Some UP), Grow]"] ng
  obtain t where "snake_run (new_Snake 10) [Grow, EnqueueDirection (Some UP), Grow, Move] = Inr t"
    and "length (body t) = 4" and "\<not> pendingGrowth t"
    by (auto simp: new_Snake_def)
  with ne m h' l' show ?thesis by blast
qed

section \<open>Contiguity of the body\<close>

lemma contiguous_butlast: "contiguous xs \<Longrightarrow> contiguous (butlast xs)"
  by (induction xs rule: contiguous.induct) auto

lemma manhattan_step: "manhattan (fst h + dx d, snd h + dy d) h = 1"
  by (cases d) (simp_all add: manhattan_def)

lemma contiguous_moved:
  assumes "body s \<noteq> []" and "contiguous (body s)"
  shows "contiguous (body (moved s))"
proof -
  obtain h rest where b: "body s = h # rest"
    using assms(1) by (cases "body s") auto
  have step: "contiguous ((fst h + dx d, snd h + dy d) # h # rest)" for d
    using assms(2) b by (simp add: manhattan_step)
  show ?thesis
  proof (cases "pendingGrowth s")
    case True
    then show ?thesis using step b by (simp add: moved_fields)
  next
    case False
    have "contiguous (butlast ((fst h + dx d, snd h + dy d) # h # rest))" for d
      using step by (rule contiguous_butlast)
    then show ?thesis using False b by (simp add: moved_fields)
  qed
qed

lemma snake_step_invariant:
  assumes "body s \<noteq> []" and "contiguous (body s)"
  shows "\<exists>s'. snake_step s c = Inr s' \<and> body s' \<noteq> [] \<and> contiguous (body s')"
proof (cases c)
  case (EnqueueDirection nd)
  then show ?thesis using assms by (simp add: enqueueDirection_fields)
next
  case Grow
  then show ?thesis using assms by (simp add: grow_def)
next
  case Move
  then show ?thesis
    using assms contiguous_moved [OF assms]
    by (simp add: move_moved moved_fields)
qed

lemma snake_run_invariant:
  assumes "body s \<noteq> []" and "contiguous (body s)"
  shows "\<exists>s'. snake_run s cs = Inr s' \<and> body s' \<noteq> [] \<and> contiguous (body s')"
  using assms
proof (induction cs arbitrary: s)
  case Nil
  then show ?case by simp
next
  case (Cons c cs)
  from snake_step_invariant [OF Cons.prems] obtain s1 where
    s1: "snake_step s c = Inr s1" "body s1 \<noteq> []" "contiguous (body s1)"
    by blast
  from Cons.IH [OF s1(2,3)] s1(1) show ?case by simp
qed

lemma new_Snake_fields:
  "body (new_Snake gs) = [(gs div 2, gs div 2), (gs div 2 - 1, gs div 2), (gs div 2 - 2, gs div 2)]"
  "direction (new_Snake gs) = RIGHT"
  "directionQueue (new_Snake gs) = []"
  "pendingGrowth (new_Snake gs) = False"
  "gridSize (new_Snake gs) = gs"
  by (simp_all add: new_Snake_def Let_def)

text \<open>
  C9. Whatever the grid size and whatever sequence of \<open>enqueueDirection\<close>, \<open>grow\<close> and
  \<open>move\<close> calls is made on a freshly constructed snake, every call returns normally and in
  the snake obtained every two consecutive body segments are at Manhattan distance exactly 1.
\<close>

theorem snake_always_contiguous:
  "\<exists>s'. snake_run (new_Snake gs) cs = Inr s' \<and> body s' \<noteq> [] \<and> contiguous (body s')"
  by (rule snake_run_invariant) (simp_all add: new_Snake_fields manhattan_def)

theorem snake_always_contiguous_witness:
  "\<exists>s'. snake_run (new_Snake 10) [Move, Grow, EnqueueDirection (Some UP), Move, Move] = Inr s'
        \<and> body s' = [(6, 3), (6, 4), (6, 5), (5, 5)] \<and> contiguous (body s')"
proof -
  have r: "snake_run (new_Snake 10) [Move, Grow, EnqueueDirection (Some UP), Move, Move]
      = Inr \<lparr> gridSize = 10, body = [(6, 3), (6, 4), (6, 5), (5, 5)], direction = UP,
              directionQueue = [], pendingGrowth = False \<rparr>"
    by (simp add: new_Snake_def move_def applyQueued_def grow_def enqueueDirection_def
          effectiveName_def OPPOSITE_DIRECTIONS_def MAX_DIRECTION_QUEUE_def Let_def)
  from snake_always_contiguous [of 10 "[Move, Grow, EnqueueDirection (Some UP), Move, Move]"]
  show ?thesis
    unfolding r by simp
qed

section \<open>Score, level and high score\<close>

lemma addScore_fields:
  "score (fst (addScore st)) = score st + 10"
  "level (fst (addScore st)) = min ((score st + 10) div 50 + 1) 10"
  "highScore (fst (addScore st)) = highScore st"
  "screen (fst (addScore st)) = screen st"
  "isNewRecord (fst (addScore st)) = isNewRecord st"
  "fst (snd (addScore st)) = (level (fst (addScore st)) > level st)"
  "snd (snd (addScore st)) = level (fst (addScore st))"
  by (simp_all add: addScore_def Let_def POINTS_PER_FOOD_def POINTS_PER_LEVEL_def MAX_LEVEL_def)

lemma score_addScore_times:
  "score (addScore_times n st) = score st + 10 * int n"
  by (induction n) (simp_all add: addScore_fields)

lemma level_addScore_times:
  "level (addScore_times (Suc n) st) = min ((score st + 10 * int (Suc n)) div 50 + 1) 10"
  by (simp add: addScore_fields score_addScore_times)

lemma level_fresh_game:
  "level (addScore_times n (startGame st)) = min (int n div 5 + 1) 10"
proof (cases n)
  case 0
  then show ?thesis by (simp add: startGame_def)
next
  case (Suc m)
  have "(10 * int (Suc m)) div 50 = int (Suc m) div 5"
    by simp
  then show ?thesis
    unfolding Suc level_addScore_times by (simp add: startGame_def)
qed

lemma level_up_calls:
  "(min (int (Suc n) div 5 + 1) 10 > min (int n div 5 + 1) 10)
     = (Suc n mod 5 = 0 \<and> Suc n \<le> 45)"
proof -
  have a: "int (Suc n) div 5 = int (Suc n div 5)" and b: "int n div 5 = int (n div 5)"
    by (simp_all only: zdiv_int of_nat_numeral)
  have c: "Suc n div 5 = (if Suc n mod 5 = 0 then Suc (n div 5) else n div 5)"
    by (rule div_Suc)
  have d: "(Suc n mod 5 = 0 \<and> Suc n \<le> 45) = (Suc n mod 5 = 0 \<and> n div 5 < 9)"
    by (auto simp: mod_Suc split: if_splits)
  show ?thesis
    unfolding a b c d by (simp add: min_def)
qed

text \<open>
  C6. Each \<open>addScore()\<close> call adds 10 to the score and sets the level to
  \<open>min(floor(score / 50) + 1, 10)\<close> of the new score, leaving screen, high score and
  record flag alone; it returns \<open>leveledUp\<close> true exactly when the new level is above the
  level before the call, and the new level; after one or more calls the level is at most 10.
  In a fresh game the calls that report a level-up are the 5th, 10th, ..., 45th.
\<close>

theorem addScore_spec:
  "score (fst (addScore st)) = score st + POINTS_PER_FOOD
   \<and> POINTS_PER_FOOD = 10
   \<and> level (fst (addScore st)) = min (score (fst (addScore st)) div 50 + 1) 10
   \<and> fst (snd (addScore st)) = (level (fst (addScore st)) > level st)
   \<and> snd (snd (addScore st)) = level (fst (addScore st))
   \<and> highScore (fst (addScore st)) = highScore st
   \<and> screen (fst (addScore st)) = screen st
   \<and> isNewRecord (fst (addScore st)) = isNewRecord st
   \<and> level (addScore_times (Suc n) st) \<le> MAX_LEVEL
   \<and> MAX_LEVEL = 10
   \<and> fst (snd (addScore (addScore_times n (startGame st))))
       = (Suc n mod 5 = 0 \<and> Suc n \<le> 45)"
proof -
  have lvl: "level (addScore_times (Suc n) st) \<le> MAX_LEVEL"
    unfolding level_addScore_times by (simp add: MAX_LEVEL_def)
  have "fst (snd (addScore (addScore_times n (startGame st))))
      = (level (addScore_times (Suc n) (startGame st)) > level (addScore_times n (startGame st)))"
    by (simp add: addScore_fields(6))
  also have "\<dots> = (min (int (Suc n) div 5 + 1) 10 > min (int n div 5 + 1) 10)"
    by (simp only: level_fresh_game)
  also have "\<dots> = (Suc n mod 5 = 0 \<and> Suc n \<le> 45)"
    by (rule level_up_calls)
  finally have up: "fst (snd (addScore (addScore_times n (startGame st))))
      = (Suc n mod 5 = 0 \<and> Suc n \<le> 45)" .
  show ?thesis
    using lvl up by (simp add: addScore_fields POINTS_PER_FOOD_def MAX_LEVEL_def)
qed

theorem addScore_spec_witness:
  "fst (snd (addScore (addScore_times 4 (startGame (new_GameState 0)))))
   \<and> \<not> fst (snd (addScore (addScore_times 5 (startGame (new_GameState 0)))))
   \<and> level (addScore_times (Suc 99) (new_GameState 0)) \<le> MAX_LEVEL"
  using addScore_spec [of "new_GameState 0" 99] addScore_spec [of "new_GameState 0" 4]
    addScore_spec [of "new_GameState 0" 5]
  by simp

lemma updateHighScore_fields:
  "highScore (updateHighScore st) = (if score st > highScore st then score st else highScore st)"
  "isNewRecord (updateHighScore st) = (if score st > highScore st then True else isNewRecord st)"
  "score (updateHighScore st) = score st"
  "level (updateHighScore st) = level st"
  "screen (updateHighScore st) = screen st"
  by (simp_all add: updateHighScore_def)

lemma highScore_step: "highScore st \<le> highScore (state_step st c)"
  by (cases c)
    (simp_all add: startGame_def pause_def resume_def endGame_def win_def returnToMenu_def
      updateHighScore_fields addScore_fields)

lemma highScore_run: "highScore st \<le> highScore (state_run st cs)"
proof (induction cs arbitrary: st)
  case Nil
  show ?case by simp
next
  case (Cons c cs)
  have "highScore st \<le> highScore (state_step st c)"
    by (rule highScore_step)
  also have "\<dots> \<le> highScore (state_run (state_step st c) cs)"
    by (rule Cons.IH)
  finally show ?case by simp
qed

lemma record_clear_step: "record_clear st \<Longrightarrow> record_clear (state_step st c)"
  by (cases c)
    (auto simp: record_clear_def startGame_def pause_def resume_def endGame_def win_def
      returnToMenu_def addScore_fields split: if_splits)

lemma record_clear_run: "record_clear st \<Longrightarrow> record_clear (state_run st cs)"
  by (induction cs arbitrary: st) (simp_all add: record_clear_step)

text \<open>
  C5. No method of the game state lowers the high score, so no sequence of calls does. On
  \<open>endGame()\<close> (death) and \<open>win()\<close> (board full) the high score becomes the score if the
  score is strictly above it and stays as it is otherwise; the record flag is set to true
  in the first case and left as it is in the second. In every state that calls reach from a
  new game state and whose screen is \<open>PLAYING\<close> the flag is false before the transition,
  so after it the flag is true exactly when the score was above the high score.
\<close>

theorem highScore_never_decreases:
  "highScore st \<le> highScore (state_step st c)
   \<and> highScore st \<le> highScore (state_run st cs)
   \<and> highScore (endGame st) = (if score st > highScore st then score st else highScore st)
   \<and> highScore (win st) = (if score st > highScore st then score st else highScore st)
   \<and> isNewRecord (endGame st) = (if score st > highScore st then True else isNewRecord st)
   \<and> isNewRecord (win st) = (if score st > highScore st then True else isNewRecord st)
   \<and> (screen (state_run (new_GameState h) cs) = PLAYING \<longrightarrow>
        isNewRecord (endGame (state_run (new_GameState h) cs))
          = (score (state_run (new_GameState h) cs) > highScore (state_run (new_GameState h) cs))
        \<and> isNewRecord (win (state_run (new_GameState h) cs))
          = (score (state_run (new_GameState h) cs) > highScore (state_run (new_GameState h) cs)))"
proof -
  have "record_clear (state_run (new_GameState h) cs)"
    by (rule record_clear_run) (simp add: record_clear_def new_GameState_def)
  then have "screen (state_run (new_GameState h) cs) = PLAYING \<longrightarrow>
      \<not> isNewRecord (state_run (new_GameState h) cs)"
    by (simp add: record_clear_def)
  then show ?thesis
    using highScore_step [of st c] highScore_run [of st cs]
    by (simp add: endGame_def win_def updateHighScore_fields)
qed

theorem highScore_never_decreases_witness:
  "screen (state_run (new_GameState 20) [StartGame, AddScore, EndGame, StartGame, AddScore, AddScore, AddScore])
     = PLAYING
   \<and> isNewRecord (endGame
        (state_run (new_GameState 20) [StartGame, AddScore, EndGame, StartGame, AddScore, AddScore, AddScore]))
   \<and> highScore (endGame
        (state_run (new_GameState 20) [StartGame, AddScore, EndGame, StartGame, AddScore, AddScore, AddScore]))
     = 30
   \<and> highScore (state_run (new_GameState 20) [StartGame, AddScore, EndGame]) = 20
   \<and> \<not> isNewRecord (state_run (new_GameState 20) [StartGame, AddScore, EndGame])"
  using highScore_never_decreases
    [of "state_run (new_GameState 20) [StartGame, AddScore, EndGame, StartGame, AddScore, AddScore, AddScore]"
      EndGame "[StartGame, AddScore, EndGame, StartGame, AddScore, AddScore, AddScore]" 20]
  by (simp add: new_GameState_def startGame_def endGame_def updateHighScore_def addScore_def
        POINTS_PER_FOOD_def POINTS_PER_LEVEL_def MAX_LEVEL_def Let_def)

section \<open>Tick interval\<close>

lemma raw_interval_mono:
  fixes increment :: int
  assumes "0 \<le> increment" and "l \<le> l'"
  shows "baseTick - (l' - 1) * increment \<le> baseTick - (l - 1) * increment"
proof -
  have "(l - 1) * increment \<le> (l' - 1) * increment"
    using assms by (intro mult_right_mono) simp_all
  then show ?thesis by simp
qed

lemma raw_interval_strict_mono:
  fixes increment :: int
  assumes "0 < increment" and "l < l'"
  shows "baseTick - (l' - 1) * increment < baseTick - (l - 1) * increment"
proof -
  have "(l - 1) * increment < (l' - 1) * increment"
    using assms by (intro mult_strict_right_mono) simp_all
  then show ?thesis by simp
qed

text \<open>
  C8, as stated, fails where the floor is above the base interval: at level 1 the interval
  is then the floor, not the base.
\<close>

theorem tickInterval_level1_counterexample:
  "tickIntervalForLevel 1 50 20 60 \<noteq> 50"
  by (simp add: tickIntervalForLevel_def)

text \<open>
  C8, amended. \<open>tickIntervalForLevel(level, base, increment, min)\<close> is
  \<open>max(base - (level - 1) * increment, min)\<close>. At level 1 it is the base interval when the
  floor is not above the base. For a positive increment it strictly decreases from a level
  whose raw value is above the floor to every higher level; for a non-negative increment,
  once the raw value is at or below the floor it is the floor at that level and at every
  higher one. With base 200, increment 20 and floor 60 it is \<open>200 - 20 * (level - 1)\<close>
  for the levels 1 to 8, that is 200, 180, ..., 60, and 60 for every level from 8 on.
\<close>

theorem tickIntervalForLevel_spec:
  "tickIntervalForLevel l baseTick increment minTick
     = max (baseTick - (l - 1) * increment) minTick
   \<and> (minTick \<le> baseTick \<longrightarrow> tickIntervalForLevel 1 baseTick increment minTick = baseTick)
   \<and> (0 < increment \<and> l < l' \<and> minTick < baseTick - (l - 1) * increment \<longrightarrow>
        tickIntervalForLevel l' baseTick increment minTick
          < tickIntervalForLevel l baseTick increment minTick)
   \<and> (0 \<le> increment \<and> l \<le> l' \<and> baseTick - (l - 1) * increment \<le> minTick \<longrightarrow>
        tickIntervalForLevel l' baseTick increment minTick = minTick)
   \<and> (1 \<le> l \<and> l \<le> 8 \<longrightarrow>
        tickIntervalForLevel l BASE_TICK_MS SPEED_INCREMENT_MS MIN_TICK_MS = 200 - 20 * (l - 1))
   \<and> (8 \<le> l \<longrightarrow> tickIntervalForLevel l BASE_TICK_MS SPEED_INCREMENT_MS MIN_TICK_MS = 60)"
proof -
  have dec: "tickIntervalForLevel l' baseTick increment minTick
      < tickIntervalForLevel l baseTick increment minTick"
    if "0 < increment" "l < l'" "minTick < baseTick - (l - 1) * increment"
    using raw_interval_strict_mono [OF that(1,2), of baseTick] that(3)
    by (simp add: tickIntervalForLevel_def)
  have pin: "tickIntervalForLevel l' baseTick increment minTick = minTick"
    if "0 \<le> increment" "l \<le> l'" "baseTick - (l - 1) * increment \<le> minTick"
    using raw_interval_mono [OF that(1,2), of baseTick] that(3)
    by (simp add: tickIntervalForLevel_def)
  have shipped: "tickIntervalForLevel l BASE_TICK_MS SPEED_INCREMENT_MS MIN_TICK_MS
      = 200 - 20 * (l - 1)" if "1 \<le> l" "l \<le> 8"
    using that
    by (simp add: tickIntervalForLevel_def BASE_TICK_MS_def SPEED_INCREMENT_MS_def MIN_TICK_MS_def)
  have floor: "tickIntervalForLevel l BASE_TICK_MS SPEED_INCREMENT_MS MIN_TICK_MS = 60"
    if "8 \<le> l"
    using that
    by (simp add: tickIntervalForLevel_def BASE_TICK_MS_def SPEED_INCREMENT_MS_def MIN_TICK_MS_def)
  show ?thesis
    using dec pin shipped floor by (simp add: tickIntervalForLevel_def)
qed

theorem tickIntervalForLevel_spec_witness:
  "tickIntervalForLevel 1 200 20 60 = 200
   \<and> tickIntervalForLevel 4 200 20 60 < tickIntervalForLevel 3 200 20 60
   \<and> tickIntervalForLevel 12 200 20 60 = 60
   \<and> tickIntervalForLevel 5 BASE_TICK_MS SPEED_INCREMENT_MS MIN_TICK_MS = 120
   \<and> tickIntervalForLevel 9 BASE_TICK_MS SPEED_INCREMENT_MS MIN_TICK_MS = 60"
  using tickIntervalForLevel_spec [of 1 200 20 60 1]
    tickIntervalForLevel_spec [of 3 200 20 60 4]
    tickIntervalForLevel_spec [of 8 200 20 60 12]
    tickIntervalForLevel_spec [of 5 200 20 60 5]
    tickIntervalForLevel_spec [of 9 200 20 60 9]
  by simp

section \<open>Food placement\<close>

lemma coordsEqual_eq: "coordsEqual a b \<longleftrightarrow> a = b"
  by (simp add: coordsEqual_def prod_eq_iff)

lemma list_ex_coordsEqual: "list_ex (\<lambda>c. coordsEqual c cell) l \<longleftrightarrow> cell \<in> set l"
  by (auto simp: list_ex_iff coordsEqual_eq)

lemma row_split:
  fixes x n y :: int and occ :: "coord list"
  assumes "x < n"
  shows "{c. snd c = y \<and> x \<le> fst c \<and> fst c < n \<and> c \<notin> set occ}
        = (if (x, y) \<in> set occ then {} else {(x, y)})
          \<union> {c. snd c = y \<and> x + 1 \<le> fst c \<and> fst c < n \<and> c \<notin> set occ}"
    (is "?L = ?A \<union> ?R")
proof (intro set_eqI iffI)
  fix c assume c: "c \<in> ?L"
  show "c \<in> ?A \<union> ?R"
  proof (cases "fst c = x")
    case True
    with c have "c = (x, y)" by (simp add: prod_eq_iff)
    with c show ?thesis by auto
  next
    case False
    with c have "x + 1 \<le> fst c" by simp
    with c show ?thesis by simp
  qed
next
  fix c assume c: "c \<in> ?A \<union> ?R"
  then show "c \<in> ?L"
    using assms by (auto split: if_splits)
qed

lemma set_spawn_x:
  "set (spawn_x n occ y x free)
     = set free \<union> {c. snd c = y \<and> x \<le> fst c \<and> fst c < n \<and> c \<notin> set occ}"
proof (induction n occ y x free rule: spawn_x.induct)
  case (1 n occ y x free)
  show ?case
  proof (cases "x < n")
    case True
    have step: "spawn_x n occ y x free
        = spawn_x n occ y (x + 1) (if (x, y) \<notin> set occ then free @ [(x, y)] else free)"
      using True by (subst spawn_x.simps) (simp add: Let_def list_ex_coordsEqual)
    have ih: "set (spawn_x n occ y (x + 1) (if (x, y) \<notin> set occ then free @ [(x, y)] else free))
        = set (if (x, y) \<notin> set occ then free @ [(x, y)] else free)
          \<union> {c. snd c = y \<and> x + 1 \<le> fst c \<and> fst c < n \<and> c \<notin> set occ}"
      using "1.IH" [OF True refl refl] unfolding list_ex_coordsEqual .
    show ?thesis
      unfolding step ih row_split [OF True] by auto
  next
    case False
    then show ?thesis
      by (subst spawn_x.simps) auto
  qed
qed

lemma rows_split:
  fixes n y :: int and occ :: "coord list"
  assumes "y < n"
  shows "{c. y \<le> snd c \<and> snd c < n \<and> 0 \<le> fst c \<and> fst c < n \<and> c \<notin> set occ}
        = {c. snd c = y \<and> 0 \<le> fst c \<and> fst c < n \<and> c \<notin> set occ}
          \<union> {c. y + 1 \<le> snd c \<and> snd c < n \<and> 0 \<le> fst c \<and> fst c < n \<and> c \<notin> set occ}"
  using assms by auto

lemma set_spawn_y:
  "set (spawn_y n occ y free)
     = set free \<union> {c. y \<le> snd c \<and> snd c < n \<and> 0 \<le> fst c \<and> fst c < n \<and> c \<notin> set occ}"
proof (induction n occ y free rule: spawn_y.induct)
  case (1 n occ y free)
  show ?case
  proof (cases "y < n")
    case True
    have step: "spawn_y n occ y free = spawn_y n occ (y + 1) (spawn_x n occ y 0 free)"
      using True by (subst spawn_y.simps) simp
    show ?thesis
      unfolding step "1.IH" [OF True] set_spawn_x rows_split [OF True]
      by (simp add: Un_assoc)
  next
    case False
    then show ?thesis
      by (subst spawn_y.simps) auto
  qed
qed

lemma set_freeCells:
  "set (spawn_y n occ 0 []) = {c. in_grid n c \<and> c \<notin> set occ}"
  by (auto simp: set_spawn_y in_grid_def)

lemma randomInt_range:
  assumes "0 \<le> u" "u < 1" "0 < len"
  shows "\<exists>i. randomInt u 0 (int len - 1) = Inr i \<and> 0 \<le> i \<and> i < int len"
proof -
  have lo: "0 \<le> u * of_int (int len)"
    using assms by simp
  have "u * of_int (int len) < 1 * of_int (int len)"
    using assms by (intro mult_strict_right_mono) simp_all
  then have hi: "\<lfloor>u * of_int (int len)\<rfloor> < int len"
    by (simp add: floor_less_iff)
  show ?thesis
    using assms(3) lo hi by (simp add: randomInt_def)
qed

lemma coordInList_mem: "coordInList c l \<longleftrightarrow> c \<in> set l"
  by (simp add: coordInList_def list_ex_coordsEqual)

lemma spawn_free:
  assumes "0 \<le> u" and "u < 1"
    and "\<exists>c. in_grid (f_gridSize f) c \<and> \<not> coordInList c occ"
  shows "\<exists>c. spawn u occ f = Inr (f\<lparr>position := Cell c\<rparr>)
           \<and> in_grid (f_gridSize f) c \<and> \<not> coordInList c occ"
proof -
  let ?free = "spawn_y (f_gridSize f) occ 0 []"
  from assms(3) have "set ?free \<noteq> {}"
    by (auto simp: set_freeCells coordInList_mem)
  then have len: "0 < length ?free"
    by simp
  from randomInt_range [OF assms(1,2) len] obtain i where
    i: "randomInt u 0 (int (length ?free) - 1) = Inr i" "0 \<le> i" "i < int (length ?free)"
    by blast
  have "?free ! nat i \<in> set ?free"
    using i(2,3) by (intro nth_mem) simp
  then have cell: "in_grid (f_gridSize f) (?free ! nat i)" "\<not> coordInList (?free ! nat i) occ"
    by (simp_all add: set_freeCells coordInList_mem)
  have "spawn u occ f = Inr (f\<lparr>position := Cell (?free ! nat i)\<rparr>)"
    using len i by (simp add: spawn_def Let_def)
  with cell show ?thesis
    by (intro exI [of _ "?free ! nat i"]) simp
qed

lemma spawn_full:
  assumes "\<forall>c. in_grid (f_gridSize f) c \<longrightarrow> coordInList c occ"
  shows "spawn u occ f = Inr (f\<lparr>position := Null\<rparr>)"
proof -
  from assms have "set (spawn_y (f_gridSize f) occ 0 []) = {}"
    by (auto simp: set_freeCells coordInList_mem)
  then show ?thesis
    by (simp add: spawn_def)
qed

text \<open>
  C7. Let \<open>Math.random()\<close> return some \<open>u\<close> with \<open>0 \<le> u < 1\<close>. If some cell of the grid is
  not in the occupied list, \<open>spawn(occupiedCells)\<close> returns normally with the position set
  to a cell that is inside the grid and not in the occupied list, and the food is active.
  If every cell of the grid is in the occupied list, the position is set to \<open>null\<close> and the
  food is inactive. This holds for every grid size (a grid of size below 1 has no cell).
\<close>

theorem spawn_spec:
  assumes "0 \<le> u" and "u < 1"
  shows "((\<exists>c. in_grid (f_gridSize f) c \<and> \<not> coordInList c occ) \<longrightarrow>
           (\<exists>c. spawn u occ f = Inr (f\<lparr>position := Cell c\<rparr>)
                \<and> in_grid (f_gridSize f) c \<and> \<not> coordInList c occ
                \<and> isActive (f\<lparr>position := Cell c\<rparr>)))
       \<and> ((\<forall>c. in_grid (f_gridSize f) c \<longrightarrow> coordInList c occ) \<longrightarrow>
           spawn u occ f = Inr (f\<lparr>position := Null\<rparr>)
           \<and> \<not> isActive (f\<lparr>position := Null\<rparr>))"
proof (intro conjI impI)
  assume "\<exists>c. in_grid (f_gridSize f) c \<and> \<not> coordInList c occ"
  from spawn_free [OF assms this]
  show "\<exists>c. spawn u occ f = Inr (f\<lparr>position := Cell c\<rparr>)
      \<and> in_grid (f_gridSize f) c \<and> \<not> coordInList c occ
      \<and> isActive (f\<lparr>position := Cell c\<rparr>)"
    by (auto simp: isActive_def)
next
  assume "\<forall>c. in_grid (f_gridSize f) c \<longrightarrow> coordInList c occ"
  then show "spawn u occ f = Inr (f\<lparr>position := Null\<rparr>)"
    by (rule spawn_full)
next
  show "\<not> isActive (f\<lparr>position := Null\<rparr>)"
    by (simp add: isActive_def)
qed

theorem spawn_spec_witness:
  "(0::rat) \<le> 1 / 2 \<and> (1 / 2 :: rat) < 1
   \<and> in_grid 2 (1, 1) \<and> \<not> coordInList (1, 1) [(0, 0), (1, 0), (0, 1)]
   \<and> spawn (1 / 2) [(0, 0), (1, 0), (0, 1)] (new_Food 2)
       = Inr \<lparr> f_gridSize = 2, position = Cell (1, 1) \<rparr>
   \<and> (\<exists>c. spawn (1 / 2) [(0, 0), (1, 0), (0, 1)] (new_Food 2)
            = Inr ((new_Food 2)\<lparr>position := Cell c\<rparr>)
          \<and> in_grid 2 c \<and> \<not> coordInList c [(0, 0), (1, 0), (0, 1)])
   \<and> spawn (1 / 2) [(0, 0), (1, 0), (0, 1), (1, 1)] (new_Food 2)
       = Inr ((new_Food 2)\<lparr>position := Null\<rparr>)"
proof -
  have u: "(0::rat) \<le> 1 / 2" "(1 / 2 :: rat) < 1"
    by simp_all
  have g: "f_gridSize (new_Food 2) = 2"
    by (simp add: new_Food_def)
  have free: "in_grid 2 (1, 1)" "\<not> coordInList (1, 1) [(0, 0), (1, 0), (0, 1)]"
    by (simp_all add: in_grid_def coordInList_def coordsEqual_def)
  have full: "\<forall>c. in_grid 2 c \<longrightarrow> coordInList c [(0, 0), (1, 0), (0, 1), (1, 1)]"
  proof (intro allI impI)
    fix c :: coord assume "in_grid 2 c"
    then have "(fst c = 0 \<or> fst c = 1) \<and> (snd c = 0 \<or> snd c = 1)"
      unfolding in_grid_def by arith
    then show "coordInList c [(0, 0), (1, 0), (0, 1), (1, 1)]"
      by (auto simp: coordInList_def coordsEqual_def)
  qed
  have ev: "spawn (1 / 2) [(0, 0), (1, 0), (0, 1)] (new_Food 2)
      = Inr \<lparr> f_gridSize = 2, position = Cell (1, 1) \<rparr>"
    by code_simp
  from spawn_spec [OF u, of "new_Food 2" "[(0, 0), (1, 0), (0, 1)]"] free g
  have some: "\<exists>c. spawn (1 / 2) [(0, 0), (1, 0), (0, 1)] (new_Food 2)
            = Inr ((new_Food 2)\<lparr>position := Cell c\<rparr>)
          \<and> in_grid 2 c \<and> \<not> coordInList c [(0, 0), (1, 0), (0, 1)]"
    by auto
  from spawn_spec [OF u, of "new_Food 2" "[(0, 0), (1, 0), (0, 1), (1, 1)]"] full g
  have none: "spawn (1 / 2) [(0, 0), (1, 0), (0, 1), (1, 1)] (new_Food 2)
       = Inr ((new_Food 2)\<lparr>position := Null\<rparr>)"
    by simp
  from u free ev some none show ?thesis
    by blast
qed

section \<open>The simulation tick\<close>

lemma isDead_moved:
  assumes "body sn \<noteq> []"
  shows "isDead (moved sn)
     = Inr (\<not> in_grid (gridSize sn) (hd (body (moved sn)))
            \<or> coordInList (hd (body (moved sn))) (tl (body (moved sn))))"
  by (auto simp: isDead_def isOutOfBounds_def isSelfColliding_def moved_fields in_grid_def)

lemma tick_unfold:
  assumes "snake g = Some sn" and "food g = Some fd" and "body sn \<noteq> []"
  shows "tick u g =
     (if \<not> in_grid (gridSize sn) (hd (body (moved sn)))
          \<or> coordInList (hd (body (moved sn))) (tl (body (moved sn)))
      then Inr (tick_dead (g\<lparr>snake := Some (moved sn)\<rparr>))
      else if isEatenBy fd (hd (body (moved sn)))
        then tick_eat u (moved sn) fd (g\<lparr>snake := Some (moved sn)\<rparr>)
        else Inr (g\<lparr>snake := Some (moved sn)\<rparr>))"
proof -
  obtain h rest where b: "body (moved sn) = h # rest"
    by (cases "body (moved sn)") (simp_all add: moved_fields)
  show ?thesis
    unfolding tick_def
    by (simp add: assms(1,2) move_moved [OF assms(3)] isDead_moved [OF assms(3)] Let_def b)
qed

lemma tick_dead_fields:
  "snake (tick_dead g) = snake g"
  "food (tick_dead g) = food g"
  "state (tick_dead g) = endGame (state g)"
  "played (tick_dead g) = played g @ [''die'']"
  "shakeTimeLeft (tick_dead g) = 300"
  "storage (tick_dead g) = saveHighScore (Finite (highScore (endGame (state g)))) (storage g)"
  "tickAccum (tick_dead g) = tickAccum g"
  "shakeOffset (tick_dead g) = shakeOffset g"
  "pulseT (tick_dead g) = pulseT g"
  by (simp_all add: tick_dead_def Let_def SHAKE_DURATION_MS_def)

lemma endGame_fields:
  "screen (endGame st) = GAME_OVER"
  "score (endGame st) = score st"
  "level (endGame st) = level st"
  by (simp_all add: endGame_def updateHighScore_fields)

lemma tick_eat_active:
  assumes "spawn u (body sn) fd = Inr fd'" and "isActive fd'"
  shows "tick_eat u sn fd g =
     Inr (g\<lparr>snake := Some (grow sn), state := fst (addScore (state g)),
            played := played g @ [if fst (snd (addScore (state g))) then ''levelup'' else ''eat''],
            food := Some fd'\<rparr>)"
  using assms by (simp add: tick_eat_def grow_def Let_def split_def)

lemma tick_eat_full:
  assumes "spawn u (body sn) fd = Inr fd'" and "\<not> isActive fd'"
  shows "tick_eat u sn fd g =
     Inr (g\<lparr>snake := Some (grow sn), state := win (fst (addScore (state g))),
            played := played g @ [if fst (snd (addScore (state g))) then ''levelup'' else ''eat''],
            food := Some fd',
            storage := saveHighScore (Finite (highScore (win (fst (addScore (state g))))))
                         (storage g)\<rparr>)"
  using assms by (simp add: tick_eat_def grow_def Let_def split_def)

lemma spawn_total:
  assumes "0 \<le> u" and "u < 1"
  shows "\<exists>fd'. spawn u occ fd = Inr fd'
     \<and> isActive fd' = (\<exists>c. in_grid (f_gridSize fd) c \<and> \<not> coordInList c occ)
     \<and> (isActive fd' \<longrightarrow>
          (\<exists>c. position fd' = Cell c \<and> in_grid (f_gridSize fd) c \<and> \<not> coordInList c occ))"
proof (cases "\<exists>c. in_grid (f_gridSize fd) c \<and> \<not> coordInList c occ")
  case True
  from spawn_free [OF assms True] obtain c where
    c: "spawn u occ fd = Inr (fd\<lparr>position := Cell c\<rparr>)"
      "in_grid (f_gridSize fd) c" "\<not> coordInList c occ"
    by blast
  have "isActive (fd\<lparr>position := Cell c\<rparr>)"
    by (simp add: isActive_def)
  moreover have "\<exists>c'. position (fd\<lparr>position := Cell c\<rparr>) = Cell c'
      \<and> in_grid (f_gridSize fd) c' \<and> \<not> coordInList c' occ"
    using c(2,3) by (intro exI [of _ c]) simp
  ultimately show ?thesis
    using c(1) True by (intro exI [of _ "fd\<lparr>position := Cell c\<rparr>"]) blast
next
  case False
  then have "spawn u occ fd = Inr (fd\<lparr>position := Null\<rparr>)"
    by (intro spawn_full) blast
  moreover have "\<not> isActive (fd\<lparr>position := Null\<rparr>)"
    by (simp add: isActive_def)
  ultimately show ?thesis
    using False by (intro exI [of _ "fd\<lparr>position := Null\<rparr>"]) blast
qed

lemma example_game_fields:
  "snake (example_game sn fd) = Some sn"
  "food (example_game sn fd) = Some fd"
  "state (example_game sn fd) = startGame (new_GameState 0)"
  "played (example_game sn fd) = []"
  by (simp_all add: example_game_def)

text \<open>
  C3, as stated, fails in its last part: a tick in which the snake survives and eats
  nothing also removes the applied direction from the pending queue, so more than the body
  and the direction of the snake changes.
\<close>

theorem tick_queue_counterexample:
  "\<exists>sn' g'. tick 0 (example_game ((new_Snake 4)\<lparr>directionQueue := [UP]\<rparr>)
                      \<lparr>f_gridSize = 4, position = Cell (0, 0)\<rparr>) = Inr g'
     \<and> snake g' = Some sn'
     \<and> isDead sn' = Inr False
     \<and> \<not> isEatenBy \<lparr>f_gridSize = 4, position = Cell (0, 0)\<rparr> (hd (body sn'))
     \<and> directionQueue sn' \<noteq> directionQueue ((new_Snake 4)\<lparr>directionQueue := [UP]\<rparr>)
     \<and> g' \<noteq> (example_game ((new_Snake 4)\<lparr>directionQueue := [UP]\<rparr>)
                \<lparr>f_gridSize = 4, position = Cell (0, 0)\<rparr>)
              \<lparr>snake := Some ((new_Snake 4)\<lparr>directionQueue := [UP], body := body sn',
                                direction := direction sn'\<rparr>)\<rparr>"
proof -
  let ?S = "(new_Snake 4)\<lparr>directionQueue := [UP]\<rparr>"
  let ?F = "\<lparr>f_gridSize = 4, position = Cell (0, 0)\<rparr>"
  let ?S' = "\<lparr>gridSize = 4, body = [(2, 1), (2, 2), (1, 2)], direction = UP,
              directionQueue = [], pendingGrowth = False\<rparr>"
  have ne: "body ?S \<noteq> []"
    by (simp add: new_Snake_fields)
  have mv: "moved ?S = ?S'"
    by (simp add: moved_def new_Snake_fields)
  have t: "tick 0 (example_game ?S ?F) = Inr ((example_game ?S ?F)\<lparr>snake := Some ?S'\<rparr>)"
    unfolding tick_unfold [OF example_game_fields(1,2) ne] mv
    by (simp add: in_grid_def coordInList_def coordsEqual_def isEatenBy_def new_Snake_fields)
  have d: "isDead ?S' = Inr False"
    by (simp add: isDead_def isOutOfBounds_def isSelfColliding_def coordInList_def coordsEqual_def)
  have e: "\<not> isEatenBy ?F (hd (body ?S'))"
    by (simp add: isEatenBy_def coordsEqual_def)
  have q: "directionQueue ?S' \<noteq> directionQueue ?S"
    by simp
  have n: "(example_game ?S ?F)\<lparr>snake := Some ?S'\<rparr>
      \<noteq> (example_game ?S ?F)\<lparr>snake := Some (?S\<lparr>body := body ?S', direction := direction ?S'\<rparr>)\<rparr>"
  proof
    assume "(example_game ?S ?F)\<lparr>snake := Some ?S'\<rparr>
      = (example_game ?S ?F)\<lparr>snake := Some (?S\<lparr>body := body ?S', direction := direction ?S'\<rparr>)\<rparr>"
    then have "snake ((example_game ?S ?F)\<lparr>snake := Some ?S'\<rparr>)
      = snake ((example_game ?S ?F)\<lparr>snake := Some (?S\<lparr>body := body ?S', direction := direction ?S'\<rparr>)\<rparr>)"
      by (rule arg_cong)
    then have "directionQueue ?S' = directionQueue (?S\<lparr>body := body ?S', direction := direction ?S'\<rparr>)"
      by simp
    then show False
      by simp
  qed
  have s: "snake ((example_game ?S ?F)\<lparr>snake := Some ?S'\<rparr>) = Some ?S'"
    by simp
  from t s d e q n show ?thesis
    by blast
qed

text \<open>
  C3, amended. Let the game hold a snake with a body and a food object, and let
  \<open>Math.random()\<close> return \<open>u\<close> with \<open>0 \<le> u < 1\<close>. A tick returns normally and moves the snake
  once. If the moved snake is dead (new head outside the grid or on another segment),
  the state makes the game-over transition, the high score of the state is passed to
  \<open>saveHighScore\<close>, the cue \<open>die\<close> is played and the shake starts; score, level and food are
  as before. Otherwise, if the new head is on the active food, the snake is marked to
  grow, the score is added (with the cue \<open>levelup\<close> or \<open>eat\<close>), and the food is respawned
  against the body of the moved snake; the new food is inactive exactly when no cell of
  the grid is free, and then the state makes the win transition and the high score is
  passed to \<open>saveHighScore\<close>. Otherwise nothing but the snake changes: the game is the
  old one with the moved snake (new body, active direction, pending queue and growth
  flag as \<open>move()\<close> leaves them).
\<close>

theorem tick_spec:
  assumes "snake g = Some sn" and "food g = Some fd" and "body sn \<noteq> []"
    and "0 \<le> u" and "u < 1"
  shows "\<exists>sn' newHead g'. move sn = Inr (sn', newHead) \<and> tick u g = Inr g'
     \<and> isDead sn'
         = Inr (\<not> in_grid (gridSize sn') newHead \<or> coordInList newHead (tl (body sn')))
     \<and> (if \<not> in_grid (gridSize sn') newHead \<or> coordInList newHead (tl (body sn'))
         then snake g' = Some sn'
              \<and> state g' = endGame (state g)
              \<and> screen (state g') = GAME_OVER
              \<and> score (state g') = score (state g)
              \<and> level (state g') = level (state g)
              \<and> food g' = Some fd
              \<and> storage g' = saveHighScore (Finite (highScore (state g'))) (storage g)
              \<and> played g' = played g @ [''die'']
              \<and> shakeTimeLeft g' = 300
         else if isEatenBy fd newHead
         then (\<exists>fd'. spawn u (body sn') fd = Inr fd'
              \<and> isActive fd' = (\<exists>c. in_grid (f_gridSize fd) c \<and> \<not> coordInList c (body sn'))
              \<and> food g' = Some fd'
              \<and> snake g' = Some (grow sn')
              \<and> played g' = played g @ [if fst (snd (addScore (state g))) then ''levelup'' else ''eat'']
              \<and> shakeTimeLeft g' = shakeTimeLeft g
              \<and> (if isActive fd'
                  then state g' = fst (addScore (state g)) \<and> storage g' = storage g
                  else state g' = win (fst (addScore (state g)))
                       \<and> storage g' = saveHighScore (Finite (highScore (state g'))) (storage g)))
         else g' = g\<lparr>snake := Some sn'\<rparr>)
     \<and> tickAccum g' = tickAccum g \<and> shakeOffset g' = shakeOffset g \<and> pulseT g' = pulseT g"
proof -
  let ?sn = "moved sn"
  let ?h = "hd (body ?sn)"
  let ?g1 = "g\<lparr>snake := Some ?sn\<rparr>"
  have m: "move sn = Inr (?sn, ?h)"
    by (rule move_moved [OF assms(3)])
  note t = tick_unfold [OF assms(1-3), of u]
  have dm: "isDead ?sn
      = Inr (\<not> in_grid (gridSize ?sn) ?h \<or> coordInList ?h (tl (body ?sn)))"
    using isDead_moved [OF assms(3)] by (simp add: moved_fields(5))
  consider (dead) "\<not> in_grid (gridSize ?sn) ?h \<or> coordInList ?h (tl (body ?sn))"
    | (eat) "\<not> (\<not> in_grid (gridSize ?sn) ?h \<or> coordInList ?h (tl (body ?sn)))"
        "isEatenBy fd ?h"
    | (plain) "\<not> (\<not> in_grid (gridSize ?sn) ?h \<or> coordInList ?h (tl (body ?sn)))"
        "\<not> isEatenBy fd ?h"
    by blast
  then show ?thesis
  proof cases
    case dead
    then have d: "\<not> in_grid (gridSize sn) ?h \<or> coordInList ?h (tl (body ?sn))"
      by (simp add: moved_fields(5))
    have "tick u g = Inr (tick_dead ?g1)"
      using t d by simp
    then show ?thesis
      using m dm dead assms(2)
      by (intro exI [of _ ?sn] exI [of _ ?h] exI [of _ "tick_dead ?g1"])
        (simp add: tick_dead_fields endGame_fields)
  next
    case eat
    then have d: "\<not> (\<not> in_grid (gridSize sn) ?h \<or> coordInList ?h (tl (body ?sn)))"
      by (simp add: moved_fields(5))
    have te: "tick u g = tick_eat u ?sn fd ?g1"
      using t d eat(2) by simp
    from spawn_total [OF assms(4,5), of "body ?sn" fd] obtain fd' where
      fd': "spawn u (body ?sn) fd = Inr fd'"
        "isActive fd' = (\<exists>c. in_grid (f_gridSize fd) c \<and> \<not> coordInList c (body ?sn))"
      by blast
    show ?thesis
    proof (cases "isActive fd'")
      case True
      let ?G = "?g1\<lparr>snake := Some (grow ?sn), state := fst (addScore (state ?g1)),
            played := played ?g1 @ [if fst (snd (addScore (state ?g1))) then ''levelup'' else ''eat''],
            food := Some fd'\<rparr>"
      have r: "tick u g = Inr ?G"
        unfolding te by (rule tick_eat_active [OF fd'(1) True])
      show ?thesis
        by (rule exI [of _ ?sn], rule exI [of _ ?h], rule exI [of _ ?G])
          (use m dm r eat fd' True in simp)
    next
      case False
      let ?G = "?g1\<lparr>snake := Some (grow ?sn), state := win (fst (addScore (state ?g1))),
            played := played ?g1 @ [if fst (snd (addScore (state ?g1))) then ''levelup'' else ''eat''],
            food := Some fd',
            storage := saveHighScore (Finite (highScore (win (fst (addScore (state ?g1))))))
                         (storage ?g1)\<rparr>"
      have r: "tick u g = Inr ?G"
        unfolding te by (rule tick_eat_full [OF fd'(1) False])
      show ?thesis
        by (rule exI [of _ ?sn], rule exI [of _ ?h], rule exI [of _ ?G])
          (use m dm r eat fd' False in simp)
    qed
  next
    case plain
    then have d: "\<not> (\<not> in_grid (gridSize sn) ?h \<or> coordInList ?h (tl (body ?sn)))"
      by (simp add: moved_fields(5))
    have "tick u g = Inr ?g1"
      using t d plain(2) by simp
    then show ?thesis
      using m dm plain
      by (intro exI [of _ ?sn] exI [of _ ?h] exI [of _ ?g1]) simp
  qed
qed

theorem tick_spec_witness:
  "snake (example_game (new_Snake 4) \<lparr>f_gridSize = 4, position = Cell (3, 2)\<rparr>)
     = Some (new_Snake 4)
   \<and> food (example_game (new_Snake 4) \<lparr>f_gridSize = 4, position = Cell (3, 2)\<rparr>)
     = Some \<lparr>f_gridSize = 4, position = Cell (3, 2)\<rparr>
   \<and> body (new_Snake 4) \<noteq> [] \<and> (0::rat) \<le> 0 \<and> (0::rat) < 1
   \<and> (\<exists>g' fd'. tick 0 (example_game (new_Snake 4) \<lparr>f_gridSize = 4, position = Cell (3, 2)\<rparr>)
          = Inr g'
        \<and> snake g' = Some (grow (moved (new_Snake 4)))
        \<and> food g' = Some fd' \<and> isActive fd'
        \<and> score (state g') = 10
        \<and> played g' = [''eat''])"
proof -
  let ?F = "\<lparr>f_gridSize = 4, position = Cell (3, 2)\<rparr>"
  let ?G = "example_game (new_Snake 4) ?F"
  have ne: "body (new_Snake 4) \<noteq> []"
    by (simp add: new_Snake_fields)
  have mv: "move (new_Snake 4) = Inr (moved (new_Snake 4), (3, 2))"
    unfolding move_moved [OF ne] by (simp add: moved_def new_Snake_fields)
  have b: "body (moved (new_Snake 4)) = [(3, 2), (2, 2), (1, 2)]"
    by (simp add: moved_def new_Snake_fields)
  have alive: "\<not> (\<not> in_grid (gridSize (moved (new_Snake 4))) (3, 2)
      \<or> coordInList (3, 2) (tl (body (moved (new_Snake 4)))))"
    by (simp add: b moved_fields(5) new_Snake_fields in_grid_def coordInList_def coordsEqual_def)
  have eaten: "isEatenBy ?F (3, 2)"
    by (simp add: isEatenBy_def coordsEqual_def)
  have free: "\<exists>c. in_grid (f_gridSize ?F) c \<and> \<not> coordInList c (body (moved (new_Snake 4)))"
    by (intro exI [of _ "(0, 0)"]) (simp add: b in_grid_def coordInList_def coordsEqual_def)
  from tick_spec [of ?G "new_Snake 4" ?F 0] ne
  obtain sn' newHead g' where
    m: "move (new_Snake 4) = Inr (sn', newHead)" and t: "tick 0 ?G = Inr g'"
    and dd: "isDead sn'
         = Inr (\<not> in_grid (gridSize sn') newHead \<or> coordInList newHead (tl (body sn')))"
    and c: "if \<not> in_grid (gridSize sn') newHead \<or> coordInList newHead (tl (body sn'))
         then snake g' = Some sn'
              \<and> state g' = endGame (state ?G)
              \<and> screen (state g') = GAME_OVER
              \<and> score (state g') = score (state ?G)
              \<and> level (state g') = level (state ?G)
              \<and> food g' = Some ?F
              \<and> storage g' = saveHighScore (Finite (highScore (state g'))) (storage ?G)
              \<and> played g' = played ?G @ [''die'']
              \<and> shakeTimeLeft g' = 300
         else if isEatenBy ?F newHead
         then (\<exists>fd'. spawn 0 (body sn') ?F = Inr fd'
              \<and> isActive fd' = (\<exists>c. in_grid (f_gridSize ?F) c \<and> \<not> coordInList c (body sn'))
              \<and> food g' = Some fd'
              \<and> snake g' = Some (grow sn')
              \<and> played g' = played ?G @ [if fst (snd (addScore (state ?G))) then ''levelup'' else ''eat'']
              \<and> shakeTimeLeft g' = shakeTimeLeft ?G
              \<and> (if isActive fd'
                  then state g' = fst (addScore (state ?G)) \<and> storage g' = storage ?G
                  else state g' = win (fst (addScore (state ?G)))
                       \<and> storage g' = saveHighScore (Finite (highScore (state g'))) (storage ?G)))
         else g' = ?G\<lparr>snake := Some sn'\<rparr>"
    unfolding example_game_fields by (elim exE conjE | simp)+
  from m mv have eq: "sn' = moved (new_Snake 4)" "newHead = (3, 2)"
    by simp_all
  from c obtain fd' where
    fd': "isActive fd' = (\<exists>c. in_grid (f_gridSize ?F) c \<and> \<not> coordInList c (body sn'))"
      "food g' = Some fd'" "snake g' = Some (grow sn')"
      "played g' = played ?G @ [if fst (snd (addScore (state ?G))) then ''levelup'' else ''eat'']"
      "if isActive fd'
         then state g' = fst (addScore (state ?G)) \<and> storage g' = storage ?G
         else state g' = win (fst (addScore (state ?G)))
              \<and> storage g' = saveHighScore (Finite (highScore (state g'))) (storage ?G)"
    unfolding eq if_not_P [OF alive] if_P [OF eaten] by blast
  have act: "isActive fd'"
    using fd'(1) free unfolding eq by simp
  have st: "state g' = fst (addScore (state ?G))"
    using fd'(5) act by simp
  have sc: "score (state g') = 10"
    unfolding st by (simp add: addScore_fields example_game_fields startGame_def)
  have pl: "played g' = [''eat'']"
    unfolding fd'(4)
    by (simp add: addScore_fields example_game_fields startGame_def new_GameState_def)
  show ?thesis
    using t fd'(2,3) act sc pl ne unfolding eq
    by (simp add: example_game_fields)
qed

section \<open>Screen transitions\<close>

text \<open>
  C4, as stated, fails for the methods that have no guard: \<open>startGame()\<close> on a state that is
  \<open>PLAYING\<close> resets the score, \<open>returnToMenu()\<close> on it goes to \<open>MENU\<close>, and \<open>endGame()\<close>
  on a state that is on \<open>MENU\<close> goes to \<open>GAME_OVER\<close>.
\<close>

theorem startGame_while_playing_counterexample:
  "screen (fst (addScore (startGame (new_GameState 0)))) = PLAYING
   \<and> score (fst (addScore (startGame (new_GameState 0)))) = 10
   \<and> score (startGame (fst (addScore (startGame (new_GameState 0))))) = 0
   \<and> startGame (fst (addScore (startGame (new_GameState 0))))
       \<noteq> fst (addScore (startGame (new_GameState 0)))
   \<and> screen (returnToMenu (fst (addScore (startGame (new_GameState 0))))) = MENU
   \<and> screen (new_GameState 0) = MENU
   \<and> screen (endGame (new_GameState 0)) = GAME_OVER"
proof -
  have sc: "score (fst (addScore (startGame (new_GameState 0)))) = 10"
    by (simp add: addScore_fields startGame_def)
  have sc0: "score (startGame (fst (addScore (startGame (new_GameState 0))))) = 0"
    by (simp add: startGame_def)
  have "startGame (fst (addScore (startGame (new_GameState 0))))
       \<noteq> fst (addScore (startGame (new_GameState 0)))"
  proof
    assume "startGame (fst (addScore (startGame (new_GameState 0))))
       = fst (addScore (startGame (new_GameState 0)))"
    then have "score (startGame (fst (addScore (startGame (new_GameState 0)))))
       = score (fst (addScore (startGame (new_GameState 0))))"
      by (rule arg_cong)
    then show False
      unfolding sc sc0 by simp
  qed
  then show ?thesis
    using sc sc0
    by (simp add: addScore_fields startGame_def returnToMenu_def endGame_def new_GameState_def
          updateHighScore_fields)
qed

lemma spawn_returns: "\<exists>fd'. spawn u occ fd = Inr fd'"
  by (simp add: spawn_def Let_def randomInt_def)

lemma startNewGame_state:
  "\<exists>g'. startNewGame u g = Inr g' \<and> state g' = startGame (state g)
        \<and> snake g' = Some (new_Snake GRID_SIZE)"
proof -
  from spawn_returns obtain fd' where
    "spawn u (body (new_Snake GRID_SIZE)) (new_Food GRID_SIZE) = Inr fd'"
    by blast
  then show ?thesis
    by (simp add: startNewGame_def Let_def)
qed

text \<open>
  C4, amended. No method of the game state raises an error. \<open>pause()\<close> leaves the whole
  state unchanged when the screen is not \<open>PLAYING\<close>, and \<open>resume()\<close> when it is not
  \<open>PAUSED\<close>. The other four methods have no guard: from every screen \<open>startGame()\<close>
  resets score, level and record flag and goes to \<open>PLAYING\<close>, \<open>returnToMenu()\<close> goes to
  \<open>MENU\<close>, and \<open>endGame()\<close> and \<open>win()\<close> update the high score and go to \<open>GAME_OVER\<close> and
  \<open>WIN\<close>. The guards of the start and return events are in the input handlers of the
  game: the confirm key changes nothing while \<open>PLAYING\<close>, only resumes while \<open>PAUSED\<close>, and
  starts a game on the other screens; the pause key changes nothing on \<open>MENU\<close> and returns
  to the menu from \<open>GAME_OVER\<close> and \<open>WIN\<close> only.
\<close>

theorem screen_machine_spec:
  "(screen st \<noteq> PLAYING \<longrightarrow> pause st = st)
   \<and> (screen st \<noteq> PAUSED \<longrightarrow> resume st = st)
   \<and> startGame st = st\<lparr>score := 0, level := 1, isNewRecord := False, screen := PLAYING\<rparr>
   \<and> returnToMenu st = st\<lparr>screen := MENU\<rparr>
   \<and> endGame st = (updateHighScore st)\<lparr>screen := GAME_OVER\<rparr>
   \<and> win st = (updateHighScore st)\<lparr>screen := WIN\<rparr>
   \<and> (screen (state g) = PLAYING \<longrightarrow> onConfirm u g = Inr g)
   \<and> (screen (state g) = PAUSED \<longrightarrow>
        onConfirm u g = Inr (g\<lparr>state := (state g)\<lparr>screen := PLAYING\<rparr>\<rparr>))
   \<and> (screen (state g) \<in> {MENU, GAME_OVER, WIN} \<longrightarrow>
        (\<exists>g'. onConfirm u g = Inr g' \<and> state g' = startGame (state g)
              \<and> snake g' = Some (new_Snake GRID_SIZE)))
   \<and> (screen (state g) = MENU \<longrightarrow> onPause g = g)
   \<and> (screen (state g) = PLAYING \<longrightarrow> onPause g = g\<lparr>state := (state g)\<lparr>screen := PAUSED\<rparr>\<rparr>)
   \<and> (screen (state g) = PAUSED \<longrightarrow> onPause g = g\<lparr>state := (state g)\<lparr>screen := PLAYING\<rparr>\<rparr>)
   \<and> (screen (state g) \<in> {GAME_OVER, WIN} \<longrightarrow> onPause g = g\<lparr>state := returnToMenu (state g)\<rparr>)"
proof -
  have p1: "screen st \<noteq> PLAYING \<longrightarrow> pause st = st"
    by (simp add: pause_def)
  have p2: "screen st \<noteq> PAUSED \<longrightarrow> resume st = st"
    by (simp add: resume_def)
  have p3: "startGame st = st\<lparr>score := 0, level := 1, isNewRecord := False, screen := PLAYING\<rparr>"
    by (simp add: startGame_def)
  have p4: "returnToMenu st = st\<lparr>screen := MENU\<rparr>"
    by (simp add: returnToMenu_def)
  have p5: "endGame st = (updateHighScore st)\<lparr>screen := GAME_OVER\<rparr>"
    by (simp add: endGame_def)
  have p6: "win st = (updateHighScore st)\<lparr>screen := WIN\<rparr>"
    by (simp add: win_def)
  have c1: "screen (state g) = PLAYING \<longrightarrow> onConfirm u g = Inr g"
    by (simp add: onConfirm_def)
  have c2: "screen (state g) = PAUSED \<longrightarrow>
        onConfirm u g = Inr (g\<lparr>state := (state g)\<lparr>screen := PLAYING\<rparr>\<rparr>)"
    by (simp add: onConfirm_def resume_def)
  have c3: "screen (state g) \<in> {MENU, GAME_OVER, WIN} \<longrightarrow>
        (\<exists>g'. onConfirm u g = Inr g' \<and> state g' = startGame (state g)
              \<and> snake g' = Some (new_Snake GRID_SIZE))"
  proof
    assume s: "screen (state g) \<in> {MENU, GAME_OVER, WIN}"
    then have "onConfirm u g = startNewGame u g"
      by (cases "screen (state g)") (simp_all add: onConfirm_def)
    then show "\<exists>g'. onConfirm u g = Inr g' \<and> state g' = startGame (state g)
        \<and> snake g' = Some (new_Snake GRID_SIZE)"
      using startNewGame_state [of u g] by simp
  qed
  have q1: "screen (state g) = MENU \<longrightarrow> onPause g = g"
    by (simp add: onPause_def)
  have q2: "screen (state g) = PLAYING \<longrightarrow> onPause g = g\<lparr>state := (state g)\<lparr>screen := PAUSED\<rparr>\<rparr>"
    by (simp add: onPause_def pause_def)
  have q3: "screen (state g) = PAUSED \<longrightarrow> onPause g = g\<lparr>state := (state g)\<lparr>screen := PLAYING\<rparr>\<rparr>"
    by (simp add: onPause_def resume_def)
  have q4: "screen (state g) \<in> {GAME_OVER, WIN} \<longrightarrow> onPause g = g\<lparr>state := returnToMenu (state g)\<rparr>"
    by (cases "screen (state g)") (simp_all add: onPause_def)
  from p1 p2 p3 p4 p5 p6 c1 c2 c3 q1 q2 q3 q4 show ?thesis
    by (intro conjI)
qed

theorem screen_machine_spec_witness:
  "screen (new_GameState 0) \<noteq> PLAYING \<and> pause (new_GameState 0) = new_GameState 0
   \<and> screen (new_GameState 0) \<noteq> PAUSED \<and> resume (new_GameState 0) = new_GameState 0
   \<and> screen (state (example_game (new_Snake 4) (new_Food 4))) = PLAYING
   \<and> onConfirm 0 (example_game (new_Snake 4) (new_Food 4))
       = Inr (example_game (new_Snake 4) (new_Food 4))
   \<and> screen (state ((example_game (new_Snake 4) (new_Food 4))\<lparr>state := new_GameState 0\<rparr>)) = MENU
   \<and> onPause ((example_game (new_Snake 4) (new_Food 4))\<lparr>state := new_GameState 0\<rparr>)
       = (example_game (new_Snake 4) (new_Food 4))\<lparr>state := new_GameState 0\<rparr>
   \<and> (\<exists>g'. onConfirm 0 ((example_game (new_Snake 4) (new_Food 4))\<lparr>state := new_GameState 0\<rparr>)
            = Inr g'
          \<and> screen (state g') = PLAYING \<and> snake g' = Some (new_Snake GRID_SIZE))"
proof -
  let ?G = "example_game (new_Snake 4) (new_Food 4)"
  let ?M = "?G\<lparr>state := new_GameState 0\<rparr>"
  have s1: "screen (new_GameState 0) \<noteq> PLAYING" and s2: "screen (new_GameState 0) \<noteq> PAUSED"
    by (simp_all add: new_GameState_def)
  have s3: "screen (state ?G) = PLAYING"
    by (simp add: example_game_fields startGame_def)
  have s4: "screen (state ?M) = MENU"
    by (simp add: new_GameState_def)
  note a = screen_machine_spec [of "new_GameState 0" ?G 0]
  note b = screen_machine_spec [of "new_GameState 0" ?M 0]
  from a s1 have w1: "pause (new_GameState 0) = new_GameState 0"
    by blast
  from a s2 have w2: "resume (new_GameState 0) = new_GameState 0"
    by blast
  from a s3 have w3: "onConfirm 0 ?G = Inr ?G"
    by blast
  from b s4 have w4: "onPause ?M = ?M"
    by blast
  from b s4 obtain g' where "onConfirm 0 ?M = Inr g'" "state g' = startGame (state ?M)"
    "snake g' = Some (new_Snake GRID_SIZE)"
    by auto
  then have w5: "\<exists>g'. onConfirm 0 ?M = Inr g'
      \<and> screen (state g') = PLAYING \<and> snake g' = Some (new_Snake GRID_SIZE)"
    by (simp add: startGame_def)
  from s1 s2 s3 s4 w1 w2 w3 w4 w5 show ?thesis
    by (intro conjI)
qed

section \<open>The persisted high score\<close>

text \<open>
  What \<open>loadHighScore\<close> returns: 0 when reading throws or the key is missing, else the
  parsed number when that is finite and not negative, else 0.
\<close>

lemma loadHighScore_unreadable: "getItemThrows ls \<Longrightarrow> loadHighScore ls = Finite 0"
  by (simp add: loadHighScore_def safeGet_def)

lemma loadHighScore_missing: "items ls HIGH_SCORE = None \<Longrightarrow> loadHighScore ls = Finite 0"
  by (simp add: loadHighScore_def safeGet_def)

lemma loadHighScore_stored:
  assumes "\<not> getItemThrows ls" and "items ls HIGH_SCORE = Some raw"
  shows "loadHighScore ls =
     (case parseInt10 raw of Finite n \<Rightarrow> if 0 \<le> n then Finite n else Finite 0 | _ \<Rightarrow> Finite 0)"
  using assms
  by (cases "parseInt10 raw")
    (simp_all add: loadHighScore_def safeGet_def Let_def num_greater_eq_def)

lemma loadHighScore_nonneg: "\<exists>n. loadHighScore ls = Finite n \<and> 0 \<le> n"
proof (cases "getItemThrows ls")
  case True
  then show ?thesis by (simp add: loadHighScore_unreadable)
next
  case False
  show ?thesis
  proof (cases "items ls HIGH_SCORE")
    case None
    then show ?thesis by (simp add: loadHighScore_missing)
  next
    case (Some raw)
    show ?thesis
      unfolding loadHighScore_stored [OF False Some]
      by (cases "parseInt10 raw") simp_all
  qed
qed

text \<open>
  \<open>saveHighScore\<close> changes the store only for a finite score that is strictly above the
  loaded high score, which is never negative.
\<close>

lemma saveHighScore_cases:
  "saveHighScore sc ls =
     (if Number_isFinite sc \<and> \<not> num_less sc (Finite 0) \<and> num_less (loadHighScore ls) sc
      then safeSet ls HIGH_SCORE (String_number sc) else ls)"
  by (simp add: saveHighScore_def Let_def)

lemma saveHighScore_guard:
  assumes "saveHighScore sc ls \<noteq> ls"
  shows "\<exists>n m. sc = Finite n \<and> loadHighScore ls = Finite m \<and> 0 \<le> m \<and> m < n"
proof -
  from assms have g: "Number_isFinite sc" "num_less (loadHighScore ls) sc"
    by (auto simp: saveHighScore_cases split: if_splits)
  from g(1) obtain n where n: "sc = Finite n"
    by (cases sc) simp_all
  from loadHighScore_nonneg obtain m where m: "loadHighScore ls = Finite m" "0 \<le> m"
    by blast
  from g(2) n m show ?thesis
    by simp
qed

subsection \<open>Safe integers survive the round trip through the store\<close>

lemma toDouble_small: "\<bar>n\<bar> < 2 ^ 53 \<Longrightarrow> toDouble n = Finite n"
  by (simp add: toDouble_def)

lemma toDouble_big:
  assumes big: "2 ^ 53 \<le> \<bar>v\<bar>" and r: "toDouble v = Finite n"
  shows "2 ^ 53 \<le> \<bar>n\<bar>"
proof -
  define a where "a = \<bar>v\<bar>"
  define e where "e = nat (bitlen a - 53)"
  define q where "q = a div 2 ^ e"
  define q' where "q' = (if a mod 2 ^ e > 2 ^ (e - 1) \<or> (a mod 2 ^ e = 2 ^ (e - 1) \<and> odd q)
                         then q + 1 else q)"
  define m where "m = q' * 2 ^ e"
  have a53: "(2::int) ^ 53 \<le> a"
    using big by (simp add: a_def)
  then have apos: "0 < a"
    by (smt (verit) zero_less_power)
  have "54 \<le> bitlen a"
    using a53 by (simp add: bitlen_ge_iff_power)
  then have e1: "1 \<le> e" and be: "nat (bitlen a - 1) = e + 52"
    by (simp_all add: e_def)
  have "(2::int) ^ (e + 52) \<le> a"
    using bitlen_bounds [OF apos] be by simp
  then have "(2::int) ^ 52 * 2 ^ e \<le> a"
    by (simp add: power_add mult.commute)
  then have "((2::int) ^ 52 * 2 ^ e) div 2 ^ e \<le> a div 2 ^ e"
    by (intro zdiv_mono1) simp_all
  then have q52: "(2::int) ^ 52 \<le> q"
    by (simp add: q_def)
  have "q \<le> q'"
    by (simp add: q'_def)
  with q52 have q'52: "(2::int) ^ 52 \<le> q'"
    by simp
  have "(2::int) ^ 1 \<le> 2 ^ e"
    using e1 by (intro power_increasing) simp_all
  then have e2: "(2::int) \<le> 2 ^ e"
    by simp
  have "(2::int) ^ 52 * 2 \<le> q' * 2 ^ e"
    using q'52 e2 by (intro mult_mono) simp_all
  then have m53: "(2::int) ^ 53 \<le> m"
    by (simp add: m_def)
  have "toDouble v =
      (if m \<ge> 2 ^ 1024 then (if v < 0 then NegInfinity else Infinity)
       else Finite (if v < 0 then - m else m))"
    using a53 unfolding toDouble_def Let_def a_def [symmetric] e_def [symmetric]
      q_def [symmetric] q'_def [symmetric] m_def [symmetric]
    by simp
  with r have "n = m \<or> n = - m"
    by (auto split: if_splits)
  with m53 show ?thesis
    by auto
qed

lemma toDouble_exact:
  assumes "toDouble v = Finite n" and "\<bar>n\<bar> < 2 ^ 53"
  shows "v = n"
proof (cases "\<bar>v\<bar> < 2 ^ 53")
  case True
  with assms(1) show ?thesis
    by (simp add: toDouble_small)
next
  case False
  then have "2 ^ 53 \<le> \<bar>v\<bar>" by simp
  from toDouble_big [OF this assms(1)] assms(2) show ?thesis
    by simp
qed

lemma roundTrip_exact:
  assumes "roundTrip n nd k = Some v" and "\<bar>n\<bar> < 2 ^ 53"
  shows "v = n"
proof -
  from assms(1) have "toDouble v = Finite n"
    by (auto simp: roundTrip_def Let_def split: if_splits)
  then show ?thesis
    using assms(2) by (rule toDouble_exact)
qed

lemma shortest_exact:
  assumes "\<bar>n\<bar> < 2 ^ 53"
  shows "shortest n = n"
proof (cases "List.map_filter (roundTrip n (length (decimal n))) [1..<Suc (length (decimal n))]")
  case Nil
  then show ?thesis
    by (simp add: shortest_def Let_def)
next
  case (Cons v rest)
  then have "v \<in> set (List.map_filter (roundTrip n (length (decimal n)))
      [1..<Suc (length (decimal n))])"
    by simp
  then obtain k where "roundTrip n (length (decimal n)) k = Some v"
    by (auto simp: map_filter_def)
  then have "v = n"
    using assms by (rule roundTrip_exact)
  with Cons show ?thesis
    by (simp add: shortest_def Let_def)
qed

lemma digits_table:
  "list_all (\<lambda>d. isDigit (digitChar d) \<and> digitValue (digitChar d) = d
      \<and> \<not> isWhiteSpace (digitChar d) \<and> digitChar d \<noteq> CHR ''-'' \<and> digitChar d \<noteq> CHR ''+'')
     [0, 1, 2, 3, 4, 5, 6, 7, 8, 9]"
  by code_simp

lemma digit_facts:
  assumes "0 \<le> d" and "d < 10"
  shows "isDigit (digitChar d)" and "digitValue (digitChar d) = d"
    and "\<not> isWhiteSpace (digitChar d)" and "digitChar d \<noteq> CHR ''-''"
    and "digitChar d \<noteq> CHR ''+''"
proof -
  from assms have "d \<in> set [0, 1, 2, 3, 4, 5, 6, 7, 8, 9]"
    by (simp del: One_nat_def) arith
  with digits_table show "isDigit (digitChar d)" and "digitValue (digitChar d) = d"
    and "\<not> isWhiteSpace (digitChar d)" and "digitChar d \<noteq> CHR ''-''"
    and "digitChar d \<noteq> CHR ''+''"
    unfolding list_all_iff by blast+
qed

lemma decimal_nonempty: "decimal n \<noteq> []"
  by (subst decimal.simps) simp

lemma decimal_digits: "0 \<le> n \<Longrightarrow> c \<in> set (decimal n) \<Longrightarrow> isDigit c"
proof (induction n rule: decimal.induct)
  case (1 n)
  show ?case
  proof (cases "n < 10")
    case True
    with "1.prems" show ?thesis
      by (subst (asm) decimal.simps) (simp add: digit_facts)
  next
    case False
    then have d: "decimal n = decimal (n div 10) @ [digitChar (n mod 10)]"
      by (subst decimal.simps) simp
    from "1.prems"(2) consider "c \<in> set (decimal (n div 10))" | "c = digitChar (n mod 10)"
      unfolding d by auto
    then show ?thesis
    proof cases
      case 1
      with "1.IH" [OF False] "1.prems"(1) show ?thesis by simp
    next
      case 2
      then show ?thesis by (simp add: digit_facts)
    qed
  qed
qed

lemma decimal_value:
  "0 \<le> n \<Longrightarrow> foldl (\<lambda>a c. 10 * a + digitValue c) 0 (decimal n) = n"
proof (induction n rule: decimal.induct)
  case (1 n)
  show ?case
  proof (cases "n < 10")
    case True
    with "1.prems" show ?thesis
      by (subst decimal.simps) (simp add: digit_facts)
  next
    case False
    then have d: "decimal n = decimal (n div 10) @ [digitChar (n mod 10)]"
      by (subst decimal.simps) simp
    have "foldl (\<lambda>a c. 10 * a + digitValue c) 0 (decimal (n div 10)) = n div 10"
      using "1.IH" [OF False] "1.prems" by simp
    then show ?thesis
      unfolding d by (simp add: digit_facts)
  qed
qed

lemma decimal_length:
  "0 \<le> n \<Longrightarrow> n < 10 ^ Suc k \<Longrightarrow> length (decimal n) \<le> Suc k"
proof (induction k arbitrary: n)
  case 0
  then show ?case
    by (subst decimal.simps) simp
next
  case (Suc k)
  show ?case
  proof (cases "n < 10")
    case True
    then show ?thesis
      by (subst decimal.simps) simp
  next
    case False
    then have d: "decimal n = decimal (n div 10) @ [digitChar (n mod 10)]"
      by (subst decimal.simps) simp
    have "n div 10 < 10 ^ Suc k"
      using Suc.prems(2) by simp
    with Suc.IH [of "n div 10"] Suc.prems(1) have "length (decimal (n div 10)) \<le> Suc k"
      by simp
    then show ?thesis
      unfolding d by simp
  qed
qed

lemma parseInt10_decimal:
  assumes "0 \<le> n"
  shows "parseInt10 (decimal n) = toDouble n"
proof -
  obtain c cs where d: "decimal n = c # cs"
    using decimal_nonempty [of n] by (cases "decimal n") auto
  have dig: "\<forall>x \<in> set (decimal n). isDigit x"
    using decimal_digits [OF assms] by blast
  then have c: "isDigit c"
    by (simp add: d)
  then have nc: "\<not> isWhiteSpace c" "c \<noteq> CHR ''-''" "c \<noteq> CHR ''+''"
    by (auto simp: isDigit_def isWhiteSpace_def)
  have tw: "takeWhile isDigit (c # cs) = c # cs"
    using dig unfolding d by (simp add: takeWhile_eq_all_conv)
  have "parseInt10 (c # cs) = toDouble (foldl (\<lambda>a c. 10 * a + digitValue c) 0 (c # cs))"
    unfolding parseInt10_def Let_def using nc tw by simp
  then show ?thesis
    unfolding d [symmetric] decimal_value [OF assms] .
qed

lemma String_number_safe:
  assumes "0 \<le> n" and "n < 2 ^ 53"
  shows "String_number (Finite n) = decimal n"
proof (cases "n = 0")
  case True
  have "decimal 0 = ''0''"
    by code_simp
  with True show ?thesis
    by (simp add: String_number_def)
next
  case False
  have "n < 10 ^ Suc 20"
    using assms(2) by simp
  from decimal_length [OF assms(1) this] have "length (decimal n) \<le> 21"
    by simp
  then have "formatDigits n = decimal n"
    by (simp add: formatDigits_def Let_def)
  moreover have "shortest n = n"
    using assms by (intro shortest_exact) simp
  ultimately show ?thesis
    using False assms(1) by (simp add: String_number_def)
qed

lemma saveHighScore_safe:
  assumes "0 \<le> n" and "n < 2 ^ 53"
  shows "\<exists>m m'. loadHighScore ls = Finite m
     \<and> loadHighScore (saveHighScore (Finite n) ls) = Finite m' \<and> 0 \<le> m \<and> m \<le> m'"
proof -
  from loadHighScore_nonneg obtain m where m: "loadHighScore ls = Finite m" "0 \<le> m"
    by blast
  show ?thesis
  proof (cases "m < n \<and> \<not> setItemThrows ls \<and> \<not> getItemThrows ls")
    case True
    let ?ls = "ls\<lparr>items := (items ls)(HIGH_SCORE \<mapsto> decimal n)\<rparr>"
    have s: "saveHighScore (Finite n) ls = ?ls"
      using True assms m
      by (simp add: saveHighScore_cases String_number_safe safeSet_def)
    have "parseInt10 (decimal n) = Finite n"
      using assms by (simp add: parseInt10_decimal toDouble_small)
    then have "loadHighScore ?ls = Finite n"
      using True assms(1) by (simp add: loadHighScore_def safeGet_def Let_def num_greater_eq_def)
    with m True show ?thesis
      unfolding s by simp
  next
    case False
    have "loadHighScore (saveHighScore (Finite n) ls) = loadHighScore ls"
    proof (cases "getItemThrows ls")
      case True
      then have "getItemThrows (saveHighScore (Finite n) ls)"
        by (simp add: saveHighScore_cases safeSet_def)
      with True show ?thesis
        by (simp add: loadHighScore_unreadable)
    next
      case g: False
      with False have "\<not> m < n \<or> setItemThrows ls"
        by simp
      then have "saveHighScore (Finite n) ls = ls"
        using m by (auto simp: saveHighScore_cases safeSet_def)
      then show ?thesis
        by simp
    qed
    with m show ?thesis
      by simp
  qed
qed

lemma String_1e21: "String_number (Finite (10 ^ 21)) = ''1e+21''"
  by code_simp

lemma parseInt10_1e21: "parseInt10 ''1e+21'' = Finite 1"
  by code_simp

lemma parseInt10_5: "parseInt10 ''5'' = Finite 5"
  by code_simp

text \<open>
  C10. \<open>loadHighScore\<close> always returns a finite number that is not negative, and 0 when
  the stored value is missing, unreadable, without a leading number or negative
  (\<open>loadHighScore_nonneg\<close>, \<open>loadHighScore_unreadable\<close>, \<open>loadHighScore_missing\<close>,
  \<open>loadHighScore_stored\<close>); \<open>saveHighScore\<close> writes only a finite score that is not
  negative and strictly above the loaded high score (\<open>saveHighScore_guard\<close>); and for
  integer scores below \<open>2^53\<close> the loaded high score never decreases
  (\<open>saveHighScore_safe\<close>). For larger scores it can decrease: with \<open>5\<close> stored,
  \<open>saveHighScore(1e21)\<close> passes the guard and stores \<open>String(1e21)\<close>, which is
  \<open>1e+21\<close>, and \<open>parseInt\<close> reads that back as 1, so the persisted high score falls from 5
  to 1.
\<close>

theorem saveHighScore_regression:
  "loadHighScore \<lparr>getItemThrows = False, setItemThrows = False,
                   items = [HIGH_SCORE \<mapsto> ''5'']\<rparr> = Finite 5
   \<and> Number_isFinite (Finite (10 ^ 21))
   \<and> saveHighScore (Finite (10 ^ 21))
        \<lparr>getItemThrows = False, setItemThrows = False, items = [HIGH_SCORE \<mapsto> ''5'']\<rparr>
      = \<lparr>getItemThrows = False, setItemThrows = False, items = [HIGH_SCORE \<mapsto> ''1e+21'']\<rparr>
   \<and> loadHighScore (saveHighScore (Finite (10 ^ 21))
        \<lparr>getItemThrows = False, setItemThrows = False, items = [HIGH_SCORE \<mapsto> ''5'']\<rparr>)
      = Finite 1"
proof -
  let ?ls = "\<lparr>getItemThrows = False, setItemThrows = False, items = [HIGH_SCORE \<mapsto> ''5'']\<rparr>"
  let ?ls' = "\<lparr>getItemThrows = False, setItemThrows = False, items = [HIGH_SCORE \<mapsto> ''1e+21'']\<rparr>"
  have l: "loadHighScore ?ls = Finite 5"
    by (simp add: loadHighScore_stored parseInt10_5)
  have s: "saveHighScore (Finite (10 ^ 21)) ?ls = ?ls'"
    unfolding saveHighScore_cases l String_1e21 by (simp add: safeSet_def)
  have l': "loadHighScore ?ls' = Finite 1"
    by (simp add: loadHighScore_stored parseInt10_1e21)
  from l s l' show ?thesis
    by simp
qed

theorem saveHighScore_regression_witness:
  "num_less
     (loadHighScore (saveHighScore (Finite (10 ^ 21))
        \<lparr>getItemThrows = False, setItemThrows = False, items = [HIGH_SCORE \<mapsto> ''5'']\<rparr>))
     (loadHighScore
        \<lparr>getItemThrows = False, setItemThrows = False, items = [HIGH_SCORE \<mapsto> ''5'']\<rparr>)"
proof -
  let ?ls = "\<lparr>getItemThrows = False, setItemThrows = False, items = [HIGH_SCORE \<mapsto> ''5'']\<rparr>"
  from saveHighScore_regression
  have a: "loadHighScore ?ls = Finite 5"
    and b: "loadHighScore (saveHighScore (Finite (10 ^ 21)) ?ls) = Finite 1"
    by blast+
  show ?thesis
    unfolding a b by simp
qed

end
